theory Spec2Isabelle
  imports Complex_Main "HOL-Library.Sublist" "HOL-Library.Multiset"
begin

section \<open>Numbers, vectors and meshes\<close>

text \<open>
  The samples are JavaScript. Coordinates that the rendering engine hands out (the corners
  of a world-space bounding box) are finite numbers and are modelled as reals; IEEE
  rounding is outside the model. The standalone page seeds its running minimum and maximum
  with \<open>Infinity\<close> and \<open>-Infinity\<close> and compares against \<open>Infinity\<close>, so its
  accumulators and its result range over \<open>number\<close>, which adds the three special values
  with the arithmetic JavaScript gives them.
\<close>

datatype number = NaN | NegInfinity | Finite real | Infinity

fun Math_min :: "number \<Rightarrow> number \<Rightarrow> number" where
  "Math_min NaN _ = NaN"
| "Math_min _ NaN = NaN"
| "Math_min NegInfinity _ = NegInfinity"
| "Math_min _ NegInfinity = NegInfinity"
| "Math_min Infinity b = b"
| "Math_min a Infinity = a"
| "Math_min (Finite a) (Finite b) = Finite (min a b)"

fun Math_max :: "number \<Rightarrow> number \<Rightarrow> number" where
  "Math_max NaN _ = NaN"
| "Math_max _ NaN = NaN"
| "Math_max Infinity _ = Infinity"
| "Math_max _ Infinity = Infinity"
| "Math_max NegInfinity b = b"
| "Math_max a NegInfinity = a"
| "Math_max (Finite a) (Finite b) = Finite (max a b)"

fun Math_abs :: "number \<Rightarrow> number" where
  "Math_abs NaN = NaN"
| "Math_abs NegInfinity = Infinity"
| "Math_abs Infinity = Infinity"
| "Math_abs (Finite a) = Finite \<bar>a\<bar>"

fun js_add :: "number \<Rightarrow> number \<Rightarrow> number" where
  "js_add NaN _ = NaN"
| "js_add _ NaN = NaN"
| "js_add Infinity NegInfinity = NaN"
| "js_add NegInfinity Infinity = NaN"
| "js_add Infinity _ = Infinity"
| "js_add _ Infinity = Infinity"
| "js_add NegInfinity _ = NegInfinity"
| "js_add _ NegInfinity = NegInfinity"
| "js_add (Finite a) (Finite b) = Finite (a + b)"

fun js_neg :: "number \<Rightarrow> number" where
  "js_neg NaN = NaN"
| "js_neg NegInfinity = Infinity"
| "js_neg Infinity = NegInfinity"
| "js_neg (Finite a) = Finite (- a)"

definition js_sub :: "number \<Rightarrow> number \<Rightarrow> number" where
  "js_sub a b = js_add a (js_neg b)"

text \<open>Division by the literal \<open>2\<close>.\<close>

fun js_half :: "number \<Rightarrow> number" where
  "js_half (Finite a) = Finite (a / 2)"
| "js_half a = a"

text \<open>\<open>a === b\<close> on numbers: \<open>NaN\<close> is equal to nothing.\<close>

definition strict_eq :: "number \<Rightarrow> number \<Rightarrow> bool" where
  "strict_eq a b = (a \<noteq> NaN \<and> b \<noteq> NaN \<and> a = b)"

definition is_finite :: "number \<Rightarrow> bool" where
  "is_finite a = (case a of Finite _ \<Rightarrow> True | _ \<Rightarrow> False)"

datatype 'a Vector3 = Vector3 (x_of: 'a) (y_of: 'a) (z_of: 'a)

record boundingBox =
  minimumWorld :: "real Vector3"
  maximumWorld :: "real Vector3"

text \<open>
  A scene node as the samples see it. \<open>getBoundingInfo\<close> is \<open>None\<close> for a node without
  that method (the samples test \<open>mesh.getBoundingInfo\<close> before calling it) and otherwise
  the bounding box the call returns. \<open>uniqueId\<close> is the engine's identity of the node.

  Two links between meshes matter when a mesh is disposed. \<open>parent\<close> is the \<open>uniqueId\<close>
  of the mesh the node hangs under in the scene graph, \<open>None\<close> for a node that hangs under
  no mesh. A transform node is not a mesh: a node that hangs under a transform node has the
  mesh above that one as its \<open>parent\<close>, if there is one. \<open>sourceMesh\<close> is, for an
  instance of another mesh, the \<open>uniqueId\<close> of that mesh, and \<open>None\<close> for a mesh that
  is not an instance.
\<close>

record mesh =
  uniqueId :: nat
  name :: string
  parent :: "nat option"
  sourceMesh :: "nat option"
  isVisible :: bool
  getBoundingInfo :: "boundingBox option"

text \<open>\<open>s.includes(t)\<close>: \<open>t\<close> occurs in \<open>s\<close> as a contiguous run of characters.\<close>

definition js_includes :: "string \<Rightarrow> string \<Rightarrow> bool" where
  "js_includes s t = sublist t s"

section \<open>The standalone page\<close>

subsection \<open>clearModels\<close>

text \<open>
  The scene is its list of meshes, \<open>scene.meshes\<close>, or \<open>None\<close> while \<open>scene.value\<close> is
  still null.

  \<open>mesh.dispose()\<close> is the engine's. Called without an argument, as the samples call it,
  it disposes the instances of the mesh, takes the mesh out of the scene's list, and then
  disposes every node that hangs under the mesh, each in the same way. An instance has no
  instances of its own. The engine takes a mesh out of the list by putting the last mesh of
  the list in its place and shortening the list by one (\<open>removeMesh\<close>), so the order of
  the list is not kept. A mesh that is not in the list has been disposed before; it has no
  instances and nothing hangs under it any more, and disposing it again leaves the list as
  it is.

  \<open>dispose_jobs\<close> works off a list of what is left to do, front first, as the engine's
  recursion does: \<open>Dispose m\<close> is a call of \<open>m.dispose()\<close>, and \<open>Detach m\<close> is what is left
  of that call once the instances are gone. Instances and children are taken in the order in
  which they stand in the list.
\<close>

fun indexOf :: "mesh list \<Rightarrow> mesh \<Rightarrow> nat option" where
  "indexOf [] k = None"
| "indexOf (m # ms) k = (if m = k then Some 0 else map_option Suc (indexOf ms k))"

definition removeMesh :: "mesh \<Rightarrow> mesh list \<Rightarrow> mesh list" where
  "removeMesh toRemove meshes =
     (case indexOf meshes toRemove of
        None \<Rightarrow> meshes
      | Some index \<Rightarrow> butlast (meshes [index := last meshes]))"

definition instances_of :: "mesh \<Rightarrow> mesh list \<Rightarrow> mesh list" where
  "instances_of m ms = filter (\<lambda>i. sourceMesh i = Some (uniqueId m)) ms"

definition children_of :: "mesh \<Rightarrow> mesh list \<Rightarrow> mesh list" where
  "children_of m ms = filter (\<lambda>c. parent c = Some (uniqueId m)) ms"

datatype job = Dispose mesh | Detach mesh

function dispose_jobs :: "job list \<Rightarrow> mesh list \<Rightarrow> mesh list" where
  "dispose_jobs [] ms = ms"
| "dispose_jobs (Dispose m # todo) ms =
     (if m \<in> set ms \<and> sourceMesh m = None
      then dispose_jobs (map Dispose (instances_of m ms) @ Detach m # todo) ms
      else dispose_jobs (Detach m # todo) ms)"
| "dispose_jobs (Detach m # todo) ms =
     (if m \<in> set ms
      then dispose_jobs (map Dispose (children_of m (removeMesh m ms)) @ todo) (removeMesh m ms)
      else dispose_jobs todo ms)"
  by pat_completeness auto

text \<open>
  The measure under which \<open>dispose_jobs\<close> ends: the length of the scene's list, and then
  the work that is left, where a call for a mesh that may have instances counts for more
  than all the calls it can give rise to.
\<close>

fun job_weight :: "nat \<Rightarrow> job \<Rightarrow> nat" where
  "job_weight n (Dispose m) = (if sourceMesh m = None then 2 * n + 3 else 2)"
| "job_weight n (Detach m) = 1"


definition dispose_mesh :: "mesh \<Rightarrow> mesh list \<Rightarrow> mesh list" where
  "dispose_mesh m ms = dispose_jobs [Dispose m] ms"


definition clearModels_visit :: "mesh \<Rightarrow> mesh list \<Rightarrow> mesh list" where
  "clearModels_visit m ms =
     (if name m \<noteq> ''ground'' \<and> \<not> js_includes (name m) ''skybox'' then dispose_mesh m ms else ms)"

definition clearModels :: "mesh list option \<Rightarrow> mesh list option" where
  "clearModels scene =
     (case scene of
        None \<Rightarrow> None
      | Some ms \<Rightarrow> Some (fold clearModels_visit ms ms))"

subsection \<open>calculateBoundingInfo\<close>

record bounds =
  minX :: number
  minY :: number
  minZ :: number
  maxX :: number
  maxY :: number
  maxZ :: number

record boundingResult =
  center :: "number Vector3"
  radius :: number

text \<open>The test that guards the body of the \<open>forEach\<close>.\<close>

definition counted :: "mesh \<Rightarrow> bool" where
  "counted m =
     (getBoundingInfo m \<noteq> None \<and> isVisible m
      \<and> \<not> js_includes (name m) ''ground'' \<and> \<not> js_includes (name m) ''skybox'')"

definition accumulate :: "mesh \<Rightarrow> bounds \<Rightarrow> bounds" where
  "accumulate m b =
     (if counted m then
        (case getBoundingInfo m of
           None \<Rightarrow> b
         | Some boundingBox \<Rightarrow>
             let mn = minimumWorld boundingBox; mx = maximumWorld boundingBox
             in \<lparr> minX = Math_min (minX b) (Finite (x_of mn)),
                  minY = Math_min (minY b) (Finite (y_of mn)),
                  minZ = Math_min (minZ b) (Finite (z_of mn)),
                  maxX = Math_max (maxX b) (Finite (x_of mx)),
                  maxY = Math_max (maxY b) (Finite (y_of mx)),
                  maxZ = Math_max (maxZ b) (Finite (z_of mx)) \<rparr>)
      else b)"

definition initial_bounds :: bounds where
  "initial_bounds =
     \<lparr> minX = Infinity, minY = Infinity, minZ = Infinity,
       maxX = NegInfinity, maxY = NegInfinity, maxZ = NegInfinity \<rparr>"

definition default_result :: boundingResult where
  "default_result = \<lparr> center = Vector3 (Finite 0) (Finite 0) (Finite 0), radius = Finite 5 \<rparr>"

definition calculateBoundingInfo :: "mesh list \<Rightarrow> boundingResult" where
  "calculateBoundingInfo meshes =
     (let b = fold accumulate meshes initial_bounds
      in if strict_eq (minX b) Infinity then default_result
         else \<lparr> center = Vector3 (js_half (js_add (minX b) (maxX b)))
                                 (js_half (js_add (minY b) (maxY b)))
                                 (js_half (js_add (minZ b) (maxZ b))),
                radius = js_half (Math_max (Math_max (Math_abs (js_sub (maxX b) (minX b)))
                                                     (Math_abs (js_sub (maxY b) (minY b))))
                                           (Math_abs (js_sub (maxZ b) (minZ b)))) \<rparr>)"


section \<open>The engine's vector helpers\<close>

text \<open>
  \<open>Vector3.Minimize\<close>, \<open>Vector3.Maximize\<close>, \<open>Vector3.Center\<close>, \<open>subtract\<close> and
  \<open>scale\<close> belong to the rendering engine, not to the repository; they are embedded with
  the componentwise meaning the engine documents. \<open>Number.MAX_VALUE\<close> is the largest
  finite double and \<open>Number.MIN_VALUE\<close> the smallest positive one.
\<close>

definition Minimize :: "real Vector3 \<Rightarrow> real Vector3 \<Rightarrow> real Vector3" where
  "Minimize a b = Vector3 (min (x_of a) (x_of b)) (min (y_of a) (y_of b)) (min (z_of a) (z_of b))"

definition Maximize :: "real Vector3 \<Rightarrow> real Vector3 \<Rightarrow> real Vector3" where
  "Maximize a b = Vector3 (max (x_of a) (x_of b)) (max (y_of a) (y_of b)) (max (z_of a) (z_of b))"

definition Center :: "real Vector3 \<Rightarrow> real Vector3 \<Rightarrow> real Vector3" where
  "Center a b = Vector3 ((x_of a + x_of b) / 2) ((y_of a + y_of b) / 2) ((z_of a + z_of b) / 2)"

definition subtract :: "real Vector3 \<Rightarrow> real Vector3 \<Rightarrow> real Vector3" where
  "subtract a b = Vector3 (x_of a - x_of b) (y_of a - y_of b) (z_of a - z_of b)"

definition scale :: "real Vector3 \<Rightarrow> real \<Rightarrow> real Vector3" where
  "scale a k = Vector3 (x_of a * k) (y_of a * k) (z_of a * k)"

definition Zero :: "real Vector3" where
  "Zero = Vector3 0 0 0"

definition MAX_VALUE :: real where
  "MAX_VALUE = (2 - 1 / 2 ^ 52) * 2 ^ 1023"

definition MIN_VALUE :: real where
  "MIN_VALUE = 1 / 2 ^ 1074"

text \<open>\<open>Math.PI\<close>, the double nearest to the circle constant.\<close>

definition Math_PI :: real where
  "Math_PI = 884279719003555 / 2 ^ 48"

text \<open>
  A thrown value or a rejection is a standard \<open>Error\<close> object carrying its message;
  \<open>toString\<close> is the one of \<open>Error.prototype\<close>.
\<close>

datatype js_error = Error (err_message: string)

definition toString :: "js_error \<Rightarrow> string" where
  "toString e = (if err_message e = [] then ''Error'' else ''Error: '' @ err_message e)"

text \<open>The value of \<open>s || d\<close> for strings: the empty string is falsy.\<close>

definition or_else :: "string \<Rightarrow> string \<Rightarrow> string" where
  "or_else s d = (if s = [] then d else s)"

section \<open>Framing in the two engine components\<close>

text \<open>
  What the framing block computes, with the names of the locals: \<open>min\<close>, \<open>max\<close>,
  \<open>center\<close>, the extent vector (\<open>extents\<close>, in the canvas component \<open>size\<close>), its largest
  axis (\<open>size\<close>, there \<open>maxSize\<close>) and the camera distance derived from it.
\<close>

record framing =
  fr_min :: "real Vector3"
  fr_max :: "real Vector3"
  fr_center :: "real Vector3"
  fr_extents :: "real Vector3"
  fr_size :: real
  fr_radius :: real

definition max_axis :: "real Vector3 \<Rightarrow> real" where
  "max_axis v = max (max (x_of v) (y_of v)) (z_of v)"

subsection \<open>The file-upload component: loadModel and handleFileSelected\<close>

text \<open>
  Both functions hold the same block. It seeds \<open>min\<close> and \<open>max\<close> from the first mesh and
  runs the loop from index 1. \<open>getBoundingInfo()\<close> is called without a test, so a node
  without the method raises a \<open>TypeError\<close>, which the enclosing \<open>try\<close> catches.
\<close>

definition no_method :: js_error where
  "no_method = Error ''mesh.getBoundingInfo is not a function''"

fun union_loop :: "mesh list \<Rightarrow> real Vector3 \<times> real Vector3 \<Rightarrow> js_error + real Vector3 \<times> real Vector3" where
  "union_loop [] acc = Inr acc"
| "union_loop (m # ms) (mn, mx) =
     (case getBoundingInfo m of
        None \<Rightarrow> Inl no_method
      | Some bb \<Rightarrow> union_loop ms (Minimize mn (minimumWorld bb), Maximize mx (maximumWorld bb)))"

definition frame_of :: "real \<Rightarrow> real Vector3 \<times> real Vector3 \<Rightarrow> framing" where
  "frame_of k acc =
     (let mn = fst acc; mx = snd acc;
          c = Center mn mx;
          extents = subtract mx mn;
          size = max_axis extents
      in \<lparr> fr_min = mn, fr_max = mx, fr_center = c, fr_extents = extents,
           fr_size = size, fr_radius = size * k \<rparr>)"

text \<open>\<open>None\<close> is the empty result, for which the block is skipped.\<close>

definition frameMeshes :: "mesh list \<Rightarrow> js_error + framing option" where
  "frameMeshes meshes =
     (case meshes of
        [] \<Rightarrow> Inr None
      | m0 # rest \<Rightarrow>
          (case getBoundingInfo m0 of
             None \<Rightarrow> Inl no_method
           | Some bb \<Rightarrow>
               (case union_loop rest (minimumWorld bb, maximumWorld bb) of
                  Inl e \<Rightarrow> Inl e
                | Inr acc \<Rightarrow> Inr (Some (frame_of 1.5 acc)))))"

subsection \<open>The canvas component: the success callback of handleFileImport\<close>

text \<open>
  Here the running \<open>min\<close> starts at \<open>Number.MAX_VALUE\<close> and the running \<open>max\<close> at
  \<open>Number.MIN_VALUE\<close>, and a node is skipped unless \<open>getBoundingInfo\<close> is a function.
\<close>

definition visit_mesh :: "mesh \<Rightarrow> real Vector3 \<times> real Vector3 \<Rightarrow> real Vector3 \<times> real Vector3" where
  "visit_mesh m acc =
     (case getBoundingInfo m of
        None \<Rightarrow> acc
      | Some bb \<Rightarrow> (Minimize (fst acc) (minimumWorld bb), Maximize (snd acc) (maximumWorld bb)))"

definition centerModel :: "mesh list \<Rightarrow> framing" where
  "centerModel meshes =
     frame_of 2 (fold visit_mesh meshes
                   (Vector3 MAX_VALUE MAX_VALUE MAX_VALUE, Vector3 MIN_VALUE MIN_VALUE MIN_VALUE))"

section \<open>The union bounding box of the specification\<close>

text \<open>
  The componentwise minimum and maximum over a non-empty list of boxes, their midpoint and
  their difference, as the specification words them.
\<close>

definition boxes :: "mesh list \<Rightarrow> boundingBox list" where
  "boxes ms = List.map_filter getBoundingInfo ms"

definition union_min :: "boundingBox list \<Rightarrow> real Vector3" where
  "union_min bs = Vector3 (Min (set (map (x_of \<circ> minimumWorld) bs)))
                          (Min (set (map (y_of \<circ> minimumWorld) bs)))
                          (Min (set (map (z_of \<circ> minimumWorld) bs)))"

definition union_max :: "boundingBox list \<Rightarrow> real Vector3" where
  "union_max bs = Vector3 (Max (set (map (x_of \<circ> maximumWorld) bs)))
                          (Max (set (map (y_of \<circ> maximumWorld) bs)))
                          (Max (set (map (z_of \<circ> maximumWorld) bs)))"

definition midpoint_of :: "real Vector3 \<Rightarrow> real Vector3 \<Rightarrow> real Vector3" where
  "midpoint_of lo hi = Vector3 ((x_of lo + x_of hi) / 2) ((y_of lo + y_of hi) / 2) ((z_of lo + z_of hi) / 2)"

definition extent_of :: "real Vector3 \<Rightarrow> real Vector3 \<Rightarrow> real Vector3" where
  "extent_of lo hi = Vector3 (x_of hi - x_of lo) (y_of hi - y_of lo) (z_of hi - z_of lo)"

definition finite_vec :: "real Vector3 \<Rightarrow> number Vector3" where
  "finite_vec v = Vector3 (Finite (x_of v)) (Finite (y_of v)) (Finite (z_of v))"

text \<open>A box is well formed when its minimum corner is below its maximum corner.\<close>

definition well_formed :: "boundingBox \<Rightarrow> bool" where
  "well_formed bb =
     (x_of (minimumWorld bb) \<le> x_of (maximumWorld bb)
      \<and> y_of (minimumWorld bb) \<le> y_of (maximumWorld bb)
      \<and> z_of (minimumWorld bb) \<le> z_of (maximumWorld bb))"

text \<open>The accumulator of the standalone page once every component is finite.\<close>

definition bounds_of :: "real Vector3 \<times> real Vector3 \<Rightarrow> bounds" where
  "bounds_of acc =
     \<lparr> minX = Finite (x_of (fst acc)), minY = Finite (y_of (fst acc)), minZ = Finite (z_of (fst acc)),
       maxX = Finite (x_of (snd acc)), maxY = Finite (y_of (snd acc)), maxZ = Finite (z_of (snd acc)) \<rparr>"

subsection \<open>Concrete nodes\<close>

definition node :: "nat \<Rightarrow> string \<Rightarrow> bool \<Rightarrow> real Vector3 \<Rightarrow> real Vector3 \<Rightarrow> mesh" where
  "node i n v lo hi =
     \<lparr> uniqueId = i, name = n, parent = None, sourceMesh = None, isVisible = v,
       getBoundingInfo = Some \<lparr> minimumWorld = lo, maximumWorld = hi \<rparr> \<rparr>"

text \<open>The two nodes of the specification's example.\<close>

definition example_nodes :: "mesh list" where
  "example_nodes =
     [node 1 ''body'' True (Vector3 (-1) (-1) (-1)) (Vector3 1 1 1),
      node 2 ''wheel'' True (Vector3 0 0 0) (Vector3 2 2 2)]"

text \<open>A model that lies wholly in the negative octant.\<close>

definition sunken_node :: mesh where
  "sunken_node = node 1 ''hull'' True (Vector3 (-3) (-3) (-3)) (Vector3 (-1) (-1) (-1))"

text \<open>A scene of the standalone page: its environment, a model mesh and a hidden helper.\<close>

definition page_scene :: "mesh list" where
  "page_scene =
     [node 1 ''ground'' True (Vector3 (-5) 0 (-5)) (Vector3 5 0 5),
      node 2 ''skybox_mesh'' True (Vector3 (-50) (-50) (-50)) (Vector3 50 50 50),
      node 3 ''body'' True (Vector3 (-1) (-1) (-1)) (Vector3 1 1 1),
      node 4 ''collider'' False (Vector3 (-9) (-9) (-9)) (Vector3 9 9 9)]"

section \<open>The viewer-element component\<close>

text \<open>
  This component wraps the engine's ready-made viewer element and never sees a mesh: it
  calls \<open>viewerInstance.loadModel\<close> and listens to the element's events. Its state is the
  refs and plain variables of the script; the fields carry the prefix \<open>vw_\<close> because the
  other components use the same names. \<open>vw_viewerInstance\<close> is \<open>None\<close> while the ref is
  null and otherwise tells which of the two methods the instance has (the script tests
  for them with \<open>typeof\<close>). \<open>vw_pending\<close> lists the calls of \<open>loadModel\<close> that have
  not settled yet, oldest first.
\<close>

datatype viewer_call = LoadFile string | Unload

record viewer_instance =
  has_loadModel :: bool
  has_dispose :: bool

record error_event =
  ev_message :: string
  ev_error :: "js_error option"

record viewer_state =
  vw_viewerElement :: bool
  vw_viewerInstance :: "viewer_instance option"
  vw_currentFile :: "string option"
  vw_isModelLoaded :: bool
  vw_isLoading :: bool
  vw_isViewerReady :: bool
  vw_loadError :: "string option"
  vw_listening :: bool
  vw_pending :: "viewer_call list"
  vw_disposed :: bool

definition viewer_initial :: viewer_state where
  "viewer_initial =
     \<lparr> vw_viewerElement = True, vw_viewerInstance = None, vw_currentFile = None,
       vw_isModelLoaded = False, vw_isLoading = False, vw_isViewerReady = False,
       vw_loadError = None, vw_listening = False, vw_pending = [], vw_disposed = False \<rparr>"

text \<open>
  \<open>onViewerReady\<close>; the argument is the instance found under \<open>viewerDetails.viewer\<close>,
  if any.
\<close>

definition onViewerReady :: "viewer_instance option \<Rightarrow> viewer_state \<Rightarrow> viewer_state" where
  "onViewerReady details s =
     (if \<not> vw_viewerElement s then s
      else (case details of
              Some viewer \<Rightarrow>
                s \<lparr> vw_viewerInstance := Some viewer, vw_isViewerReady := True,
                    vw_loadError := None, vw_listening := True \<rparr>
            | None \<Rightarrow>
                s \<lparr> vw_loadError := Some ''Viewer initialized, but API instance could not be accessed.'',
                    vw_isViewerReady := False \<rparr>))"

text \<open>\<open>onModelChange\<close>; the argument tells whether \<open>event.detail\<close> is truthy.\<close>

definition onModelChange :: "bool \<Rightarrow> viewer_state \<Rightarrow> viewer_state" where
  "onModelChange loadedSource s =
     (let s1 = s \<lparr> vw_isLoading := False \<rparr>
      in if loadedSource then s1 \<lparr> vw_isModelLoaded := True, vw_loadError := None \<rparr>
         else s1 \<lparr> vw_isModelLoaded := False \<rparr>)"

definition onModelError :: "error_event \<Rightarrow> viewer_state \<Rightarrow> viewer_state" where
  "onModelError event s =
     s \<lparr> vw_isLoading := False, vw_isModelLoaded := False,
         vw_loadError := Some (or_else (ev_message event)
                                 (case ev_error event of
                                    Some e \<Rightarrow> toString e
                                  | None \<Rightarrow> ''Unknown model loading error.'')) \<rparr>"

text \<open>
  \<open>loadModelIntoViewer\<close> runs up to its \<open>await\<close> and goes on when the awaited call
  settles. The first part either returns early, or fails at once in the \<open>catch\<close> (the
  instance has no \<open>loadModel\<close>, so calling it raises), or leaves a call pending. The second
  part gets the rejection, if the call was rejected.
\<close>

definition loadModelIntoViewer_catch :: "js_error \<Rightarrow> viewer_state \<Rightarrow> viewer_state" where
  "loadModelIntoViewer_catch error s =
     s \<lparr> vw_loadError := Some (or_else (err_message error) ''Error initiating model load.''),
         vw_isLoading := False, vw_isModelLoaded := False \<rparr>"

definition loadModelIntoViewer :: "string \<Rightarrow> viewer_state \<Rightarrow> viewer_state" where
  "loadModelIntoViewer file s =
     (case (vw_isViewerReady s, vw_viewerInstance s) of
        (True, Some viewer) \<Rightarrow>
          (let s1 = s \<lparr> vw_isLoading := True, vw_loadError := None \<rparr>
           in if has_loadModel viewer then s1 \<lparr> vw_pending := vw_pending s1 @ [LoadFile file] \<rparr>
              else loadModelIntoViewer_catch
                     (Error ''viewerInstance.value.loadModel is not a function'') s1)
      | _ \<Rightarrow> s \<lparr> vw_loadError := Some ''Viewer not ready. Cannot load model.'' \<rparr>)"

definition loadModelIntoViewer_settled :: "js_error option \<Rightarrow> viewer_state \<Rightarrow> viewer_state" where
  "loadModelIntoViewer_settled rejection s =
     (case rejection of None \<Rightarrow> s | Some error \<Rightarrow> loadModelIntoViewer_catch error s)"

text \<open>\<open>handleFileChange\<close>; the argument is the name of \<open>input.files[0]\<close>, if there is one.\<close>

definition handleFileChange :: "string option \<Rightarrow> viewer_state \<Rightarrow> viewer_state" where
  "handleFileChange files s =
     (case files of
        Some file \<Rightarrow> loadModelIntoViewer file (s \<lparr> vw_currentFile := Some file \<rparr>)
      | None \<Rightarrow> s)"

definition clearModel :: "viewer_state \<Rightarrow> viewer_state" where
  "clearModel s =
     (case (vw_isViewerReady s, vw_viewerInstance s) of
        (True, Some viewer) \<Rightarrow>
          (let s1 = s \<lparr> vw_isLoading := True, vw_loadError := None, vw_currentFile := None \<rparr>
           in if has_loadModel viewer then s1 \<lparr> vw_pending := vw_pending s1 @ [Unload] \<rparr>
              else s1 \<lparr> vw_isLoading := False \<rparr>)
      | _ \<Rightarrow> s)"

definition clearModel_settled :: "js_error option \<Rightarrow> viewer_state \<Rightarrow> viewer_state" where
  "clearModel_settled rejection s =
     (case rejection of
        None \<Rightarrow> s \<lparr> vw_isModelLoaded := False, vw_isLoading := False \<rparr>
      | Some error \<Rightarrow>
          s \<lparr> vw_loadError := Some ''Failed to clear model.'', vw_isLoading := False,
              vw_isModelLoaded := False \<rparr>)"

definition viewer_onBeforeUnmount :: "viewer_state \<Rightarrow> viewer_state" where
  "viewer_onBeforeUnmount s =
     (let s1 = (if vw_viewerElement s then s \<lparr> vw_listening := False \<rparr> else s)
      in case vw_viewerInstance s1 of
           Some viewer \<Rightarrow> if has_dispose viewer then s1 \<lparr> vw_disposed := True \<rparr> else s1
         | None \<Rightarrow> s1)"

subsection \<open>The template and the events\<close>

text \<open>
  The \<open>disabled\<close> bindings of the file input and of the Clear button. A disabled control
  fires no event.
\<close>

definition file_input_disabled :: "viewer_state \<Rightarrow> bool" where
  "file_input_disabled s = (vw_isLoading s \<or> \<not> vw_isViewerReady s)"

definition clear_button_disabled :: "viewer_state \<Rightarrow> bool" where
  "clear_button_disabled s = (\<not> vw_isModelLoaded s \<or> vw_isLoading s \<or> \<not> vw_isViewerReady s)"

text \<open>
  How a pending call ends. The viewer element belongs to the engine; it is taken to report
  the end of a call as the call settles: a \<open>modelchange\<close> event and a resolved promise, a
  \<open>modelerror\<close> event and a rejected promise, or a promise that settles without an event.
  The events reach the component only while its listeners are attached.
\<close>

datatype viewer_outcome =
    Changed bool
  | Errored error_event js_error
  | Rejected js_error
  | Resolved

definition rejection_of :: "viewer_outcome \<Rightarrow> js_error option" where
  "rejection_of out =
     (case out of Changed _ \<Rightarrow> None | Errored _ e \<Rightarrow> Some e | Rejected e \<Rightarrow> Some e | Resolved \<Rightarrow> None)"

definition dispatch :: "viewer_outcome \<Rightarrow> viewer_state \<Rightarrow> viewer_state" where
  "dispatch out s =
     (if vw_listening s then
        (case out of
           Changed loadedSource \<Rightarrow> onModelChange loadedSource s
         | Errored event _ \<Rightarrow> onModelError event s
         | _ \<Rightarrow> s)
      else s)"

definition settle :: "viewer_call \<Rightarrow> viewer_outcome \<Rightarrow> viewer_state \<Rightarrow> viewer_state" where
  "settle call out s =
     (case call of
        LoadFile _ \<Rightarrow> loadModelIntoViewer_settled (rejection_of out) (dispatch out s)
      | Unload \<Rightarrow> clearModel_settled (rejection_of out) (dispatch out s))"

datatype viewer_event =
    ViewerReady "viewer_instance option"
  | InputChange "string option"
  | ClearClick
  | Settled viewer_outcome

text \<open>One event; \<open>None\<close> when the event cannot happen in this state.\<close>

definition viewer_step :: "viewer_state \<Rightarrow> viewer_event \<Rightarrow> viewer_state option" where
  "viewer_step s ev =
     (case ev of
        ViewerReady details \<Rightarrow> Some (onViewerReady details s)
      | InputChange files \<Rightarrow>
          if file_input_disabled s then None else Some (handleFileChange files s)
      | ClearClick \<Rightarrow>
          if clear_button_disabled s then None else Some (clearModel s)
      | Settled out \<Rightarrow>
          (case vw_pending s of
             [] \<Rightarrow> None
           | call # rest \<Rightarrow> Some (settle call out (s \<lparr> vw_pending := rest \<rparr>))))"

fun viewer_run :: "viewer_state \<Rightarrow> viewer_event list \<Rightarrow> viewer_state option" where
  "viewer_run s [] = Some s"
| "viewer_run s (ev # evs) =
     (case viewer_step s ev of None \<Rightarrow> None | Some s' \<Rightarrow> viewer_run s' evs)"

section \<open>The canvas component\<close>

text \<open>
  The component that drives the engine itself and keeps the list \<open>loadedModel\<close>. Its
  state is the module variables \<open>engine\<close>, \<open>scene\<close>, \<open>loadedModel\<close>, \<open>resizeHandler\<close>
  and the refs, under the prefix \<open>cv_\<close>. Of the engine only what the script can observe
  is kept: whether an object has been disposed, and the meshes attached to the scene.
  \<open>mesh.dispose()\<close> takes the mesh and the meshes that hang under it out of the scene
  (\<open>dispose_mesh\<close>), \<open>scene.dispose()\<close> takes all of them out, and a finished import
  attaches the imported meshes to the scene before it calls the success callback. The node
  \<open>modelRoot\<close> that the callback creates, and under which it hangs the imported meshes
  that have no parent, is a transform node: it is not a mesh, has no geometry and is never
  disposed, so it is no \<open>parent\<close> in the sense of the record \<open>mesh\<close>; only its position
  is kept. \<open>cv_pending\<close> counts the file reads and imports under way.
\<close>

record scene =
  sc_meshes :: "mesh list"
  sc_disposed :: bool

record camera =
  cam_target :: "real Vector3"
  cam_radius :: real
  cam_alpha :: real
  cam_beta :: real
  cam_lowerRadiusLimit :: real
  cam_upperRadiusLimit :: real

record canvas_state =
  cv_canvasRef :: bool
  cv_engine :: "bool option"
  cv_scene :: "scene option"
  cv_activeCamera :: "camera option"
  cv_loadedModel :: "mesh list"
  cv_modelRoot :: "real Vector3 option"
  cv_resizeHandler :: bool
  cv_scroll_listeners :: bool
  cv_resize_listener :: bool
  cv_loadingStatus :: string
  cv_pending :: nat

text \<open>The component before \<open>initScene\<close> has run. \<open>cv_engine\<close> holds the disposed flag.\<close>

definition canvas_initial :: canvas_state where
  "canvas_initial =
     \<lparr> cv_canvasRef = True, cv_engine = None, cv_scene = None, cv_activeCamera = None,
       cv_loadedModel = [], cv_modelRoot = None, cv_resizeHandler = False,
       cv_scroll_listeners = False, cv_resize_listener = False,
       cv_loadingStatus = [], cv_pending = 0 \<rparr>"

definition initScene :: "canvas_state \<Rightarrow> canvas_state" where
  "initScene s =
     (if \<not> cv_canvasRef s then s
      else s \<lparr> cv_scroll_listeners := True,
               cv_engine := Some False,
               cv_scene := Some \<lparr> sc_meshes = [], sc_disposed = False \<rparr>,
               cv_activeCamera := Some \<lparr> cam_target = Zero, cam_radius = 10,
                                          cam_alpha = - Math_PI / 2, cam_beta = Math_PI / 2.5,
                                          cam_lowerRadiusLimit = 0.1, cam_upperRadiusLimit = 100 \<rparr>,
               cv_resizeHandler := True,
               cv_resize_listener := True \<rparr>)"

definition dispose_all :: "mesh list \<Rightarrow> scene \<Rightarrow> scene" where
  "dispose_all ms sc = sc \<lparr> sc_meshes := fold dispose_mesh ms (sc_meshes sc) \<rparr>"

text \<open>
  \<open>handleFileImport\<close> up to the start of the file read; the argument is the name of
  \<open>target.files[0]\<close>, if there is one.
\<close>

definition handleFileImport :: "string option \<Rightarrow> canvas_state \<Rightarrow> canvas_state" where
  "handleFileImport files s =
     (case (files, cv_scene s) of
        (Some file, Some sc) \<Rightarrow>
          (let s1 = s \<lparr> cv_loadingStatus := ''Loading '' @ file @ ''...'' \<rparr>;
               s2 = (if length (cv_loadedModel s1) > 0
                     then s1 \<lparr> cv_scene := Some (dispose_all (cv_loadedModel s1) sc),
                               cv_loadedModel := [] \<rparr>
                     else s1)
           in s2 \<lparr> cv_pending := cv_pending s2 + 1 \<rparr>)
      | _ \<Rightarrow> s)"

text \<open>The success callback of \<open>ImportMesh\<close>.\<close>

definition onSuccess :: "mesh list \<Rightarrow> canvas_state \<Rightarrow> canvas_state" where
  "onSuccess meshes s =
     (let s1 = s \<lparr> cv_loadingStatus := ''Model loaded successfully'', cv_loadedModel := meshes \<rparr>
      in if length meshes = 0 then s1 \<lparr> cv_loadingStatus := ''Warning: No meshes were loaded'' \<rparr>
         else
           (let f = centerModel meshes;
                s2 = s1 \<lparr> cv_modelRoot := Some (scale (fr_center f) (- 1)) \<rparr>
            in case cv_activeCamera s2 of
                 Some cam \<Rightarrow>
                   s2 \<lparr> cv_activeCamera :=
                          Some (cam \<lparr> cam_target := Zero, cam_radius := fr_size f * 2,
                                      cam_alpha := Math_PI / 4, cam_beta := Math_PI / 3 \<rparr>) \<rparr>
               | None \<Rightarrow> s2))"

text \<open>
  How a started read ends: the reader fails, the reader delivers nothing, \<open>ImportMesh\<close>
  raises inside the \<open>try\<close>, the import calls the error callback with a message, or it
  attaches the meshes and calls the success callback.
\<close>

datatype import_outcome =
    ReadError
  | NoContent
  | Threw js_error
  | Failed string
  | Imported "mesh list"

definition attach :: "mesh list \<Rightarrow> canvas_state \<Rightarrow> canvas_state" where
  "attach meshes s =
     (case cv_scene s of
        Some sc \<Rightarrow> s \<lparr> cv_scene := Some (sc \<lparr> sc_meshes := sc_meshes sc @ meshes \<rparr>) \<rparr>
      | None \<Rightarrow> s)"

definition handleFileImport_done :: "import_outcome \<Rightarrow> canvas_state \<Rightarrow> canvas_state" where
  "handleFileImport_done out s =
     (case out of
        ReadError \<Rightarrow> s \<lparr> cv_loadingStatus := ''Error: Failed to read the file'' \<rparr>
      | NoContent \<Rightarrow> s \<lparr> cv_loadingStatus := ''Error: Could not read file'' \<rparr>
      | Threw error \<Rightarrow> s \<lparr> cv_loadingStatus := ''Exception: '' @ err_message error \<rparr>
      | Failed message \<Rightarrow> s \<lparr> cv_loadingStatus := ''Error: '' @ message \<rparr>
      | Imported meshes \<Rightarrow> onSuccess meshes (attach meshes s))"

text \<open>
  \<open>onBeforeUnmount\<close>. Every access is behind a test of the handle; none of the handles
  is set back to null.
\<close>

definition canvas_onBeforeUnmount :: "canvas_state \<Rightarrow> canvas_state" where
  "canvas_onBeforeUnmount s =
     (let s1 = (if length (cv_loadedModel s) > 0
                then (case cv_scene s of
                        Some sc \<Rightarrow> s \<lparr> cv_scene := Some (dispose_all (cv_loadedModel s) sc) \<rparr>
                      | None \<Rightarrow> s)
                else s);
          s2 = (case cv_scene s1 of
                  Some sc \<Rightarrow> s1 \<lparr> cv_scene := Some (sc \<lparr> sc_meshes := [], sc_disposed := True \<rparr>) \<rparr>
                | None \<Rightarrow> s1);
          s3 = (case cv_engine s2 of
                  Some _ \<Rightarrow> s2 \<lparr> cv_engine := Some True \<rparr>
                | None \<Rightarrow> s2);
          s4 = (if cv_canvasRef s3 then s3 \<lparr> cv_scroll_listeners := False \<rparr> else s3)
      in if cv_resizeHandler s4 then s4 \<lparr> cv_resize_listener := False \<rparr> else s4)"

subsection \<open>Events\<close>

text \<open>
  The file input of this component has no \<open>disabled\<close> binding and the handler tests no
  loading flag, so a change event is possible in every state. A read can only end while
  one is under way.
\<close>

datatype canvas_event =
    Change "string option"
  | Done import_outcome

definition canvas_step :: "canvas_state \<Rightarrow> canvas_event \<Rightarrow> canvas_state option" where
  "canvas_step s ev =
     (case ev of
        Change files \<Rightarrow> Some (handleFileImport files s)
      | Done out \<Rightarrow>
          if cv_pending s = 0 then None
          else Some (handleFileImport_done out (s \<lparr> cv_pending := cv_pending s - 1 \<rparr>)))"

fun canvas_run :: "canvas_state \<Rightarrow> canvas_event list \<Rightarrow> canvas_state option" where
  "canvas_run s [] = Some s"
| "canvas_run s (ev # evs) =
     (case canvas_step s ev of None \<Rightarrow> None | Some s' \<Rightarrow> canvas_run s' evs)"

text \<open>
  A run in which the user picks a file only while no read is under way: every load is
  requested after the one before it has ended.
\<close>

fun one_at_a_time :: "canvas_state \<Rightarrow> canvas_event list \<Rightarrow> bool" where
  "one_at_a_time s [] = True"
| "one_at_a_time s (ev # evs) =
     ((case ev of Change _ \<Rightarrow> cv_pending s = 0 | Done _ \<Rightarrow> True)
      \<and> (case canvas_step s ev of None \<Rightarrow> False | Some s' \<Rightarrow> one_at_a_time s' evs))"

text \<open>The meshes attached to the scene.\<close>

definition attached :: "canvas_state \<Rightarrow> mesh list" where
  "attached s = (case cv_scene s of Some sc \<Rightarrow> sc_meshes sc | None \<Rightarrow> [])"

section \<open>The file-upload component\<close>

text \<open>
  The component with the \<open>modelUrl\<close> prop and the Add Model button. Its state is the
  refs \<open>isLoading\<close>, \<open>errorLoading\<close>, \<open>hasModel\<close>, the module variables \<open>engine\<close>,
  \<open>scene\<close>, \<open>camera\<close> and the prop, under the prefix \<open>up_\<close>. The scene is the list of
  the meshes attached to it, \<open>None\<close> while the variable is null. \<open>up_emitted\<close> collects
  what the component emits to its parent, \<open>up_pending\<close> the imports and file reads under
  way, oldest first.
\<close>

datatype upload_call = UrlImport string | FileRead string

record upload_state =
  up_babylonCanvas :: bool
  up_modelUrl :: string
  up_engine :: bool
  up_scene :: "mesh list option"
  up_camera :: "camera option"
  up_isLoading :: bool
  up_errorLoading :: "string option"
  up_hasModel :: bool
  up_renderLoop :: bool
  up_resize_listener :: bool
  up_emitted :: "(string \<times> string) list"
  up_pending :: "upload_call list"

definition upload_initial :: "string \<Rightarrow> upload_state" where
  "upload_initial url =
     \<lparr> up_babylonCanvas = True, up_modelUrl = url, up_engine = False, up_scene = None,
       up_camera = None, up_isLoading = False, up_errorLoading = None, up_hasModel = False,
       up_renderLoop = False, up_resize_listener = False, up_emitted = [], up_pending = [] \<rparr>"

definition disposeBabylon :: "upload_state \<Rightarrow> upload_state" where
  "disposeBabylon s =
     (let s1 = s \<lparr> up_resize_listener := False \<rparr>
      in if up_engine s1
         then s1 \<lparr> up_renderLoop := False, up_scene := None, up_engine := False, up_camera := None \<rparr>
         else s1)"

text \<open>The \<open>catch\<close> block shared by initializeBabylon, loadModel and handleFileSelected.\<close>

definition report_error :: "js_error \<Rightarrow> upload_state \<Rightarrow> upload_state" where
  "report_error e s =
     s \<lparr> up_errorLoading := Some (or_else (err_message e) ''Unknown error occurred.''),
         up_emitted := up_emitted s @ [(''model-error'', or_else (err_message e) ''Unknown error occurred.'')] \<rparr>"

text \<open>
  The body of the \<open>try\<close> after the import has delivered its meshes, which by then are
  attached to the scene: frame them, set \<open>hasModel\<close>, emit. Framing raises when a mesh
  has no \<open>getBoundingInfo\<close> or when \<open>camera\<close> is null.
\<close>

definition null_camera :: js_error where
  "null_camera = Error ''Cannot read properties of null (reading 'setTarget')''"

definition frame_camera :: "mesh list \<Rightarrow> camera option \<Rightarrow> js_error + camera option" where
  "frame_camera meshes cam =
     (case frameMeshes meshes of
        Inl e \<Rightarrow> Inl e
      | Inr None \<Rightarrow> Inr cam
      | Inr (Some f) \<Rightarrow>
          (case cam of
             None \<Rightarrow> Inl null_camera
           | Some c \<Rightarrow>
               Inr (Some (c \<lparr> cam_target := fr_center f, cam_radius := fr_radius f,
                              cam_lowerRadiusLimit := fr_size f * 0.1,
                              cam_upperRadiusLimit := fr_radius f * 5 \<rparr>))))"

definition attach_meshes :: "mesh list \<Rightarrow> upload_state \<Rightarrow> upload_state" where
  "attach_meshes meshes s =
     (case up_scene s of Some ms \<Rightarrow> s \<lparr> up_scene := Some (ms @ meshes) \<rparr> | None \<Rightarrow> s)"

definition model_arrived :: "string \<Rightarrow> mesh list \<Rightarrow> upload_state \<Rightarrow> js_error + upload_state" where
  "model_arrived label meshes s =
     (case frame_camera meshes (up_camera s) of
        Inl e \<Rightarrow> Inl e
      | Inr cam \<Rightarrow>
          Inr (s \<lparr> up_camera := cam, up_hasModel := True,
                   up_emitted := up_emitted s @ [(''model-loaded'', label)] \<rparr>))"

text \<open>
  The end of an awaited import, resolved or rejected, run through \<open>try\<close>, \<open>catch\<close> and
  \<open>finally\<close>.
\<close>

definition import_settled :: "string \<Rightarrow> js_error + mesh list \<Rightarrow> upload_state \<Rightarrow> upload_state" where
  "import_settled label result s =
     (let s1 = (case result of
                  Inl e \<Rightarrow> report_error e s
                | Inr meshes \<Rightarrow>
                    (case model_arrived label meshes (attach_meshes meshes s) of
                       Inl e \<Rightarrow> report_error e (attach_meshes meshes s)
                     | Inr s' \<Rightarrow> s'))
      in s1 \<lparr> up_isLoading := False \<rparr>)"

text \<open>
  \<open>loadModel\<close> up to its \<open>await\<close>. It returns at once when there is no scene or when
  the address is a blob address; otherwise it leaves an import pending.
\<close>

definition loadModel :: "string \<Rightarrow> upload_state \<Rightarrow> upload_state" where
  "loadModel url s =
     (case up_scene s of
        None \<Rightarrow> s
      | Some _ \<Rightarrow>
          (let s1 = s \<lparr> up_isLoading := True, up_errorLoading := None \<rparr>
           in if prefix ''blob:'' url
              then s1 \<lparr> up_errorLoading := Some ''Please use the Add Model button to load models.'',
                        up_isLoading := False \<rparr>
              else s1 \<lparr> up_pending := up_pending s1 @ [UrlImport url] \<rparr>))"

text \<open>
  \<open>initializeBabylon\<close>. The constructors of the engine may raise; \<open>creation\<close> tells
  which one does, if any. When loadModel leaves an import pending, the \<open>finally\<close> of
  initializeBabylon runs after that import has settled, otherwise at once.
\<close>

datatype creation =
    Created
  | EngineThrows js_error
  | SceneThrows js_error
  | CameraThrows js_error
  | LightThrows js_error

definition upload_camera :: camera where
  "upload_camera =
     \<lparr> cam_target = Zero, cam_radius = 10, cam_alpha = - Math_PI / 2, cam_beta = Math_PI / 2.5,
       cam_lowerRadiusLimit = 2, cam_upperRadiusLimit = 50 \<rparr>"

definition initializeBabylon :: "creation \<Rightarrow> upload_state \<Rightarrow> upload_state" where
  "initializeBabylon c s =
     (if \<not> up_babylonCanvas s then s
      else
        (let s1 = disposeBabylon s;
             s2 = s1 \<lparr> up_isLoading := True, up_errorLoading := None, up_hasModel := False \<rparr>
         in case c of
              EngineThrows e \<Rightarrow> (report_error e s2) \<lparr> up_isLoading := False \<rparr>
            | SceneThrows e \<Rightarrow>
                (report_error e (s2 \<lparr> up_engine := True \<rparr>)) \<lparr> up_isLoading := False \<rparr>
            | CameraThrows e \<Rightarrow>
                (report_error e (s2 \<lparr> up_engine := True, up_scene := Some [] \<rparr>))
                  \<lparr> up_isLoading := False \<rparr>
            | LightThrows e \<Rightarrow>
                (report_error e (s2 \<lparr> up_engine := True, up_scene := Some [],
                                      up_camera := Some upload_camera \<rparr>))
                  \<lparr> up_isLoading := False \<rparr>
            | Created \<Rightarrow>
                (let s3 = s2 \<lparr> up_engine := True, up_scene := Some [],
                                up_camera := Some upload_camera,
                                up_renderLoop := True, up_resize_listener := True \<rparr>
                 in if up_modelUrl s3 \<noteq> []
                    then (let s4 = loadModel (up_modelUrl s3) s3
                          in if up_pending s4 = up_pending s3 then s4 \<lparr> up_isLoading := False \<rparr>
                             else s4)
                    else s3 \<lparr> up_isLoading := False \<rparr>)))"

text \<open>
  \<open>handleFileSelected\<close> up to the start of the file read; the argument is the name of
  \<open>event.target.files[0]\<close>, if there is one.
\<close>

definition handleFileSelected :: "string option \<Rightarrow> upload_state \<Rightarrow> upload_state" where
  "handleFileSelected files s =
     (case (files, up_scene s) of
        (Some file, Some _) \<Rightarrow>
          s \<lparr> up_isLoading := True, up_errorLoading := None,
              up_pending := up_pending s @ [FileRead file] \<rparr>
      | _ \<Rightarrow> s)"

text \<open>
  How a started file read ends: \<open>reader.onerror\<close>, \<open>reader.onload\<close> with no content,
  or \<open>reader.onload\<close> with the import rejected or resolved.
\<close>

datatype upload_outcome =
    ReaderFailed
  | EmptyResult
  | ImportRejected js_error
  | ImportResolved "mesh list"

definition handleFileSelected_done :: "string \<Rightarrow> upload_outcome \<Rightarrow> upload_state \<Rightarrow> upload_state" where
  "handleFileSelected_done file out s =
     (case out of
        ReaderFailed \<Rightarrow>
          s \<lparr> up_errorLoading := Some ''Error: Failed to read the file'', up_isLoading := False \<rparr>
      | EmptyResult \<Rightarrow>
          s \<lparr> up_errorLoading := Some ''Error: Could not read file'', up_isLoading := False \<rparr>
      | ImportRejected e \<Rightarrow> import_settled file (Inl e) s
      | ImportResolved meshes \<Rightarrow> import_settled file (Inr meshes) s)"

subsection \<open>The template and the events\<close>

text \<open>
  The Add Model button and the file input sit in an element rendered under
  \<open>v-if="!hasModel && !isLoading"\<close>; while it is not rendered no file can be selected.
  The prop can change at any time; the watcher re-initialises when the new address is not
  empty, differs from the old one and the canvas exists.
\<close>

definition add_model_shown :: "upload_state \<Rightarrow> bool" where
  "add_model_shown s = (\<not> up_hasModel s \<and> \<not> up_isLoading s)"

datatype upload_event =
    Mounted creation
  | UrlChanged string creation
  | FileSelected "string option"
  | Finished upload_outcome
  | Unmounted

definition watch_modelUrl :: "string \<Rightarrow> creation \<Rightarrow> upload_state \<Rightarrow> upload_state" where
  "watch_modelUrl newUrl c s =
     (let s1 = s \<lparr> up_modelUrl := newUrl \<rparr>
      in if newUrl \<noteq> [] \<and> newUrl \<noteq> up_modelUrl s \<and> up_babylonCanvas s
         then initializeBabylon c s1 else s1)"

definition upload_finish :: "upload_call \<Rightarrow> upload_outcome \<Rightarrow> upload_state \<Rightarrow> upload_state option" where
  "upload_finish call out s =
     (case call of
        FileRead file \<Rightarrow> Some (handleFileSelected_done file out s)
      | UrlImport url \<Rightarrow>
          (case out of
             ImportRejected e \<Rightarrow> Some (import_settled url (Inl e) s)
           | ImportResolved meshes \<Rightarrow> Some (import_settled url (Inr meshes) s)
           | _ \<Rightarrow> None))"

definition upload_step :: "upload_state \<Rightarrow> upload_event \<Rightarrow> upload_state option" where
  "upload_step s ev =
     (case ev of
        Mounted c \<Rightarrow> Some (initializeBabylon c s)
      | UrlChanged newUrl c \<Rightarrow> Some (watch_modelUrl newUrl c s)
      | FileSelected files \<Rightarrow>
          if add_model_shown s then Some (handleFileSelected files s) else None
      | Finished out \<Rightarrow>
          (case up_pending s of
             [] \<Rightarrow> None
           | call # rest \<Rightarrow> upload_finish call out (s \<lparr> up_pending := rest \<rparr>))
      | Unmounted \<Rightarrow> Some (disposeBabylon s))"

fun upload_run :: "upload_state \<Rightarrow> upload_event list \<Rightarrow> upload_state option" where
  "upload_run s [] = Some s"
| "upload_run s (ev # evs) =
     (case upload_step s ev of None \<Rightarrow> None | Some s' \<Rightarrow> upload_run s' evs)"

section \<open>Notions used in the statements\<close>

subsection \<open>Messages and failures\<close>

text \<open>A message is shown when the error ref holds a non-empty text.\<close>

definition shown :: "string option \<Rightarrow> bool" where
  "shown e = (case e of Some m \<Rightarrow> m \<noteq> [] | None \<Rightarrow> False)"

text \<open>The outcomes of a read that are failures, in the two engine components.\<close>

definition read_failed :: "upload_outcome \<Rightarrow> bool" where
  "read_failed out = (case out of ImportResolved _ \<Rightarrow> False | _ \<Rightarrow> True)"

definition import_failed :: "import_outcome \<Rightarrow> bool" where
  "import_failed out = (case out of Imported _ \<Rightarrow> False | _ \<Rightarrow> True)"

text \<open>The status line of the canvas component reports a failure.\<close>

definition error_status :: "string \<Rightarrow> bool" where
  "error_status t = (prefix ''Error: '' t \<or> prefix ''Exception: '' t)"

subsection \<open>Teardown\<close>

text \<open>
  What onBeforeUnmount of the canvas component amounts to: scene and engine, where they
  exist, end up disposed, and the listeners are taken off where the test before the
  removal succeeds.
\<close>

definition torn_down :: "canvas_state \<Rightarrow> canvas_state" where
  "torn_down c =
     c \<lparr> cv_scene := map_option (\<lambda>_. \<lparr> sc_meshes = [], sc_disposed = True \<rparr>) (cv_scene c),
         cv_engine := map_option (\<lambda>_. True) (cv_engine c),
         cv_scroll_listeners := cv_scroll_listeners c \<and> \<not> cv_canvasRef c,
         cv_resize_listener := cv_resize_listener c \<and> \<not> cv_resizeHandler c \<rparr>"

subsection \<open>Environment meshes and the scene graph\<close>



text \<open>
  Two scenes of the standalone page after an import. The callback of the import creates the
  mesh \<open>root\<close> and hangs every imported mesh without a parent under it. In the first scene
  the import has brought a body, under it a hidden collider, and an instance of the body; in
  the second a single mesh with \<open>skybox\<close> in its name.
\<close>

definition loaded_page :: "mesh list" where
  "loaded_page =
     [node 1 ''ground'' True (Vector3 (-5) 0 (-5)) (Vector3 5 0 5),
      node 2 ''skybox'' True (Vector3 (-50) (-50) (-50)) (Vector3 50 50 50),
      (node 3 ''body'' True (Vector3 (-1) (-1) (-1)) (Vector3 1 1 1)) \<lparr> parent := Some 6 \<rparr>,
      (node 4 ''collider'' False (Vector3 (-9) (-9) (-9)) (Vector3 9 9 9)) \<lparr> parent := Some 3 \<rparr>,
      (node 5 ''body_2'' True (Vector3 2 (-1) (-1)) (Vector3 4 1 1))
         \<lparr> parent := Some 6, sourceMesh := Some 3 \<rparr>,
      node 6 ''root'' True (Vector3 0 0 0) (Vector3 0 0 0)]"


subsection \<open>Invariants of the three components\<close>

text \<open>
  The viewer-element component: no call is pending, or exactly one is and \<open>isLoading\<close>
  is set.
\<close>

definition viewer_inv :: "viewer_state \<Rightarrow> bool" where
  "viewer_inv s = (vw_pending s = [] \<or> (vw_isLoading s \<and> length (vw_pending s) = 1))"

text \<open>
  The canvas component: the meshes attached to the scene are those of \<open>loadedModel\<close>, and
  either no read is under way, or one is and the scene holds no mesh.
\<close>

definition canvas_inv :: "canvas_state \<Rightarrow> bool" where
  "canvas_inv s =
     (attached s = cv_loadedModel s
      \<and> (cv_pending s = 0 \<or> (cv_pending s = 1 \<and> attached s = [] \<and> cv_scene s \<noteq> None)))"

text \<open>
  The file-upload component. \<open>up_attached\<close> is the list of meshes attached to the scene.
  The invariant: a scene comes with an engine and a camera; meshes are attached only while
  \<open>hasModel\<close> is set; and either nothing is pending, or one import or read is, \<open>isLoading\<close>
  is set and \<open>hasModel\<close> is not.
\<close>

definition up_attached :: "upload_state \<Rightarrow> mesh list" where
  "up_attached u = (case up_scene u of Some ms \<Rightarrow> ms | None \<Rightarrow> [])"

definition upload_inv :: "upload_state \<Rightarrow> bool" where
  "upload_inv u =
     ((up_scene u \<noteq> None \<longrightarrow> up_engine u \<and> up_camera u \<noteq> None)
      \<and> (\<not> up_hasModel u \<longrightarrow> up_attached u = [])
      \<and> (up_pending u = [] \<or> (up_isLoading u \<and> \<not> up_hasModel u \<and> length (up_pending u) = 1)))"

text \<open>
  The runs of the file-upload component in which loads do not overlap and the engine
  behaves: the component is mounted or its address changed only while nothing is pending,
  the camera constructor does not raise once the scene exists, and every imported mesh has
  a bounding box.
\<close>

definition camera_throws :: "creation \<Rightarrow> bool" where
  "camera_throws k = (case k of CameraThrows _ \<Rightarrow> True | _ \<Rightarrow> False)"

definition boxed :: "mesh list \<Rightarrow> bool" where
  "boxed ms = list_all (\<lambda>m. getBoundingInfo m \<noteq> None) ms"

definition calm :: "upload_state \<Rightarrow> upload_event \<Rightarrow> bool" where
  "calm s ev =
     (case ev of
        Mounted k \<Rightarrow> up_pending s = [] \<and> \<not> camera_throws k
      | UrlChanged _ k \<Rightarrow> up_pending s = [] \<and> \<not> camera_throws k
      | Finished out \<Rightarrow> (case out of ImportResolved ms \<Rightarrow> boxed ms | _ \<Rightarrow> True)
      | _ \<Rightarrow> True)"

fun orderly :: "upload_state \<Rightarrow> upload_event list \<Rightarrow> bool" where
  "orderly s [] = True"
| "orderly s (ev # evs) =
     (calm s ev \<and> (case upload_step s ev of None \<Rightarrow> False | Some s' \<Rightarrow> orderly s' evs))"

subsection \<open>Concrete states and runs\<close>

text \<open>
  The viewer-element component once the viewer is ready, with a full instance and with an
  instance that lacks both methods; after a rejected load of \<open>a.glb\<close>; and with that load
  still in flight.
\<close>

definition ready_viewer :: viewer_state where
  "ready_viewer = onViewerReady (Some \<lparr> has_loadModel = True, has_dispose = True \<rparr>) viewer_initial"

definition bare_viewer :: viewer_state where
  "bare_viewer = onViewerReady (Some \<lparr> has_loadModel = False, has_dispose = False \<rparr>) viewer_initial"

definition rejected_viewer :: viewer_state where
  "rejected_viewer =
     ready_viewer \<lparr> vw_currentFile := Some ''a.glb'', vw_loadError := Some ''bad'' \<rparr>"

definition loading_viewer :: viewer_state where
  "loading_viewer =
     ready_viewer \<lparr> vw_currentFile := Some ''a.glb'', vw_isLoading := True,
                    vw_pending := [LoadFile ''a.glb''] \<rparr>"

text \<open>
  The file-upload component mounted without an address, and after a rejected import; a node
  without \<open>getBoundingInfo\<close>.
\<close>

definition ready_upload :: upload_state where
  "ready_upload = initializeBabylon Created (upload_initial [])"

definition rejected_upload :: upload_state where
  "rejected_upload =
     ready_upload \<lparr> up_errorLoading := Some ''bad'', up_emitted := [(''model-error'', ''bad'')] \<rparr>"

definition boxless_node :: mesh where
  "boxless_node = \<lparr> uniqueId = 7, name = ''probe'', parent = None, sourceMesh = None,
                     isVisible = True, getBoundingInfo = None \<rparr>"

text \<open>Two loads in the canvas component, the second requested after the first has ended.\<close>

definition two_loads :: "canvas_event list" where
  "two_loads =
     [Change (Some ''a.glb''), Done (Imported [example_nodes ! 0]),
      Change (Some ''b.glb''), Done (Imported [example_nodes ! 1])]"

section \<open>Facts about the framing computations\<close>

subsection \<open>Boxes, minima and maxima\<close>

lemma boxes_Nil: "boxes [] = []"
  by (simp add: boxes_def map_filter_simps)

lemma boxes_Cons:
  "boxes (m # ms) = (case getBoundingInfo m of None \<Rightarrow> boxes ms | Some bb \<Rightarrow> bb # boxes ms)"
  by (simp add: boxes_def map_filter_simps split: option.splits)

lemma boxes_filter_counted:
  "\<forall>m\<in>set ms. getBoundingInfo m \<noteq> None \<Longrightarrow> boxes ms \<noteq> [] \<or> ms = []"
  by (cases ms) (auto simp: boxes_Cons)

lemma set_boxes_mset: "mset ms = mset ms' \<Longrightarrow> set (boxes ms) = set (boxes ms')"
proof -
  assume "mset ms = mset ms'"
  then have "set ms = set ms'" by (rule mset_eq_setD)
  then show ?thesis by (auto simp: boxes_def map_filter_def)
qed

lemma union_mset:
  assumes "mset ms = mset ms'"
  shows "union_min (boxes ms) = union_min (boxes ms')"
    and "union_max (boxes ms) = union_max (boxes ms')"
  using set_boxes_mset [OF assms] by (simp_all add: union_min_def union_max_def)

lemma Min_insert_min: "finite S \<Longrightarrow> Min (insert (min a r) S) = min a (Min (insert r S))"
  for a :: real
  by (cases "S = {}") (simp_all add: min.assoc)

lemma Max_insert_max: "finite S \<Longrightarrow> Max (insert (max a r) S) = max a (Max (insert r S))"
  for a :: real
  by (cases "S = {}") (simp_all add: max.assoc)

lemma MIN_VALUE_pos: "0 < MIN_VALUE"
  by (simp add: MIN_VALUE_def)

lemma MAX_VALUE_big: "1 \<le> MAX_VALUE"
proof -
  have "(1::real) \<le> 1 * 1" by simp
  also have "\<dots> \<le> (2 - 1 / 2 ^ 52) * 2 ^ 1023"
    by (rule mult_mono) (simp_all add: field_simps)
  finally show ?thesis by (simp add: MAX_VALUE_def)
qed

text \<open>The loop of the canvas component in closed form, from any starting pair.\<close>

lemma fold_visit_mesh:
  "fold visit_mesh ms (mn, mx) =
     (Vector3 (Min (insert (x_of mn) (set (map (x_of \<circ> minimumWorld) (boxes ms)))))
              (Min (insert (y_of mn) (set (map (y_of \<circ> minimumWorld) (boxes ms)))))
              (Min (insert (z_of mn) (set (map (z_of \<circ> minimumWorld) (boxes ms))))),
      Vector3 (Max (insert (x_of mx) (set (map (x_of \<circ> maximumWorld) (boxes ms)))))
              (Max (insert (y_of mx) (set (map (y_of \<circ> maximumWorld) (boxes ms)))))
              (Max (insert (z_of mx) (set (map (z_of \<circ> maximumWorld) (boxes ms))))))"
proof (induction ms arbitrary: mn mx)
  case Nil
  show ?case by (simp add: boxes_Nil)
next
  case (Cons m ms)
  have unfold: "fold visit_mesh (m # ms) (mn, mx) = fold visit_mesh ms (visit_mesh m (mn, mx))"
    by simp
  show ?case
  proof (cases "getBoundingInfo m")
    case None
    then have step: "visit_mesh m (mn, mx) = (mn, mx)"
      by (simp add: visit_mesh_def)
    show ?thesis
      unfolding unfold step Cons.IH by (simp add: boxes_Cons None)
  next
    case (Some bb)
    then have step: "visit_mesh m (mn, mx) =
        (Minimize mn (minimumWorld bb), Maximize mx (maximumWorld bb))"
      by (simp add: visit_mesh_def)
    show ?thesis
      unfolding unfold step Cons.IH
      by (simp add: boxes_Cons Some Minimize_def Maximize_def Min_insert_min Max_insert_max)
  qed
qed

subsection \<open>The file-upload component\<close>

lemma union_loop_fold:
  "\<forall>m\<in>set ms. getBoundingInfo m \<noteq> None \<Longrightarrow> union_loop ms acc = Inr (fold visit_mesh ms acc)"
proof (induction ms arbitrary: acc)
  case Nil
  show ?case by simp
next
  case (Cons m ms)
  obtain mn mx where acc: "acc = (mn, mx)" by (cases acc)
  from Cons.prems obtain bb where bb: "getBoundingInfo m = Some bb" by auto
  from Cons.prems have rest: "\<forall>k\<in>set ms. getBoundingInfo k \<noteq> None" by simp
  have step: "visit_mesh m (mn, mx) =
      (Minimize mn (minimumWorld bb), Maximize mx (maximumWorld bb))"
    by (simp add: visit_mesh_def bb)
  have "union_loop (m # ms) acc
          = union_loop ms (Minimize mn (minimumWorld bb), Maximize mx (maximumWorld bb))"
    by (simp add: acc bb)
  also have "\<dots> = Inr (fold visit_mesh ms (visit_mesh m (mn, mx)))"
    unfolding step by (rule Cons.IH [OF rest])
  finally show ?case by (simp add: acc)
qed

lemma frameMeshes_union:
  assumes "ms \<noteq> []" and "\<forall>m\<in>set ms. getBoundingInfo m \<noteq> None"
  shows "frameMeshes ms = Inr (Some (frame_of 1.5 (union_min (boxes ms), union_max (boxes ms))))"
proof -
  from assms(1) obtain m0 rest where ms: "ms = m0 # rest" by (cases ms) auto
  from assms(2) ms obtain bb where bb: "getBoundingInfo m0 = Some bb" by auto
  from assms(2) ms have rest: "\<forall>k\<in>set rest. getBoundingInfo k \<noteq> None" by simp
  have "union_loop rest (minimumWorld bb, maximumWorld bb)
          = Inr (union_min (boxes ms), union_max (boxes ms))"
    by (simp add: union_loop_fold [OF rest] fold_visit_mesh ms boxes_Cons bb
          union_min_def union_max_def)
  then show ?thesis
    by (simp add: frameMeshes_def ms bb)
qed

text \<open>
  The centre this component hands to the camera is the midpoint of the union box, and a
  reordering of the nodes does not change the framing.
\<close>

lemma frameMeshes_center:
  assumes "ms \<noteq> []" and "\<forall>m\<in>set ms. getBoundingInfo m \<noteq> None"
  shows "\<exists>f. frameMeshes ms = Inr (Some f)
           \<and> fr_center f = midpoint_of (union_min (boxes ms)) (union_max (boxes ms))"
  by (simp add: frameMeshes_union [OF assms] frame_of_def Let_def Center_def midpoint_of_def)

lemma frameMeshes_mset:
  assumes "ms \<noteq> []" and "\<forall>m\<in>set ms. getBoundingInfo m \<noteq> None" and "mset ms = mset ms'"
  shows "frameMeshes ms' = frameMeshes ms"
proof -
  from assms(3) have eq: "set ms = set ms'" by (rule mset_eq_setD)
  with assms(1) have ne: "ms' \<noteq> []" by auto
  from eq assms(2) have all: "\<forall>m\<in>set ms'. getBoundingInfo m \<noteq> None" by simp
  show ?thesis
    by (simp only: frameMeshes_union [OF ne all] frameMeshes_union [OF assms(1,2)]
          union_mset [OF assms(3)])
qed

subsection \<open>The standalone page\<close>

lemma accumulate_not_counted: "\<not> counted m \<Longrightarrow> accumulate m b = b"
  by (simp add: accumulate_def)

lemma fold_accumulate_filter: "fold accumulate ms b = fold accumulate (filter counted ms) b"
  by (induction ms arbitrary: b) (simp_all add: accumulate_not_counted)

lemma counted_box: "counted m \<Longrightarrow> \<exists>bb. getBoundingInfo m = Some bb"
  by (auto simp: counted_def)

lemma accumulate_initial:
  "counted m \<Longrightarrow> getBoundingInfo m = Some bb \<Longrightarrow>
     accumulate m initial_bounds = bounds_of (minimumWorld bb, maximumWorld bb)"
  by (simp add: accumulate_def initial_bounds_def bounds_of_def Let_def)

lemma accumulate_bounds_of:
  "counted m \<Longrightarrow> accumulate m (bounds_of acc) = bounds_of (visit_mesh m acc)"
  by (auto simp: accumulate_def bounds_of_def visit_mesh_def Minimize_def Maximize_def
        counted_def Let_def)

lemma fold_accumulate_bounds_of:
  "\<forall>m\<in>set ms. counted m \<Longrightarrow> fold accumulate ms (bounds_of acc) = bounds_of (fold visit_mesh ms acc)"
proof (induction ms arbitrary: acc)
  case Nil
  show ?case by simp
next
  case (Cons m ms)
  from Cons.prems have m: "counted m" and rest: "\<forall>k\<in>set ms. counted k" by simp_all
  have "fold accumulate (m # ms) (bounds_of acc) = fold accumulate ms (accumulate m (bounds_of acc))"
    by simp
  also have "\<dots> = fold accumulate ms (bounds_of (visit_mesh m acc))"
    by (simp only: accumulate_bounds_of [OF m])
  also have "\<dots> = bounds_of (fold visit_mesh ms (visit_mesh m acc))"
    by (rule Cons.IH [OF rest])
  finally show ?case by simp
qed

lemma fold_accumulate_union:
  assumes "ms \<noteq> []" and all: "\<forall>m\<in>set ms. counted m"
  shows "fold accumulate ms initial_bounds = bounds_of (union_min (boxes ms), union_max (boxes ms))"
proof -
  from assms(1) obtain m0 rest where ms: "ms = m0 # rest" by (cases ms) auto
  from all ms have m0: "counted m0" and rest: "\<forall>k\<in>set rest. counted k" by simp_all
  from counted_box [OF m0] obtain bb where bb: "getBoundingInfo m0 = Some bb" ..
  have "fold accumulate ms initial_bounds = fold accumulate rest (accumulate m0 initial_bounds)"
    by (simp add: ms)
  also have "\<dots> = bounds_of (fold visit_mesh rest (minimumWorld bb, maximumWorld bb))"
    by (simp only: accumulate_initial [OF m0 bb] fold_accumulate_bounds_of [OF rest])
  also have "fold visit_mesh rest (minimumWorld bb, maximumWorld bb)
               = (union_min (boxes ms), union_max (boxes ms))"
    by (simp add: fold_visit_mesh ms boxes_Cons bb union_min_def union_max_def)
  finally show ?thesis .
qed

lemma calculateBoundingInfo_filter:
  "calculateBoundingInfo ms = calculateBoundingInfo (filter counted ms)"
  unfolding calculateBoundingInfo_def by (subst fold_accumulate_filter) simp

lemma calculateBoundingInfo_none:
  "filter counted ms = [] \<Longrightarrow> calculateBoundingInfo ms = default_result"
proof -
  assume none: "filter counted ms = []"
  have "calculateBoundingInfo ms = calculateBoundingInfo []"
    by (simp only: calculateBoundingInfo_filter [of ms] none)
  also have "\<dots> = default_result"
    by (simp add: calculateBoundingInfo_def initial_bounds_def strict_eq_def)
  finally show ?thesis .
qed

lemma calculateBoundingInfo_union:
  assumes "ms \<noteq> []" and "\<forall>m\<in>set ms. counted m"
  shows "calculateBoundingInfo ms =
           \<lparr> center = finite_vec (midpoint_of (union_min (boxes ms)) (union_max (boxes ms))),
             radius = Finite (max_axis (Vector3
                        \<bar>x_of (extent_of (union_min (boxes ms)) (union_max (boxes ms)))\<bar>
                        \<bar>y_of (extent_of (union_min (boxes ms)) (union_max (boxes ms)))\<bar>
                        \<bar>z_of (extent_of (union_min (boxes ms)) (union_max (boxes ms)))\<bar>) / 2) \<rparr>"
  by (simp add: calculateBoundingInfo_def fold_accumulate_union [OF assms] bounds_of_def
        strict_eq_def js_sub_def finite_vec_def midpoint_of_def extent_of_def max_axis_def Let_def)

text \<open>
  On the page, the centre is the midpoint of the union box of the nodes it counts, and the
  result does not depend on the order of the nodes, whatever they are.
\<close>

lemma calculateBoundingInfo_center:
  assumes "filter counted ms \<noteq> []"
  shows "center (calculateBoundingInfo ms) =
           finite_vec (midpoint_of (union_min (boxes (filter counted ms)))
                                   (union_max (boxes (filter counted ms))))"
proof -
  have all: "\<forall>m\<in>set (filter counted ms). counted m" by simp
  show ?thesis
    by (simp add: calculateBoundingInfo_filter [of ms] calculateBoundingInfo_union [OF assms all])
qed

lemma calculateBoundingInfo_mset:
  assumes "mset ms = mset ms'"
  shows "calculateBoundingInfo ms' = calculateBoundingInfo ms"
proof -
  from assms have f: "mset (filter counted ms) = mset (filter counted ms')"
    by (metis mset_filter)
  show ?thesis
  proof (cases "filter counted ms = []")
    case True
    with f have "filter counted ms' = []" by (metis mset_zero_iff)
    with True show ?thesis by (simp add: calculateBoundingInfo_none)
  next
    case False
    with f have ne: "filter counted ms' \<noteq> []" by (metis mset_zero_iff)
    have all: "\<forall>m\<in>set (filter counted ms). counted m"
      and all': "\<forall>m\<in>set (filter counted ms'). counted m" by simp_all
    have "calculateBoundingInfo (filter counted ms') = calculateBoundingInfo (filter counted ms)"
      by (simp only: calculateBoundingInfo_union [OF False all]
            calculateBoundingInfo_union [OF ne all'] union_mset [OF f])
    then show ?thesis
      by (simp only: calculateBoundingInfo_filter [of ms] calculateBoundingInfo_filter [of ms'])
  qed
qed

lemma union_ordered:
  assumes "bs \<noteq> []" and "\<forall>bb\<in>set bs. well_formed bb"
  shows "x_of (union_min bs) \<le> x_of (union_max bs)"
    and "y_of (union_min bs) \<le> y_of (union_max bs)"
    and "z_of (union_min bs) \<le> z_of (union_max bs)"
proof -
  from assms(1) obtain bb where bb: "bb \<in> set bs" by (cases bs) auto
  with assms(2) have wf: "well_formed bb" by simp
  have "Min (set (map (x_of \<circ> minimumWorld) bs)) \<le> x_of (minimumWorld bb)"
    using bb by (intro Min_le) auto
  moreover have "x_of (maximumWorld bb) \<le> Max (set (map (x_of \<circ> maximumWorld) bs))"
    using bb by (intro Max_ge) auto
  ultimately show "x_of (union_min bs) \<le> x_of (union_max bs)"
    using wf by (simp add: union_min_def union_max_def well_formed_def)
  have "Min (set (map (y_of \<circ> minimumWorld) bs)) \<le> y_of (minimumWorld bb)"
    using bb by (intro Min_le) auto
  moreover have "y_of (maximumWorld bb) \<le> Max (set (map (y_of \<circ> maximumWorld) bs))"
    using bb by (intro Max_ge) auto
  ultimately show "y_of (union_min bs) \<le> y_of (union_max bs)"
    using wf by (simp add: union_min_def union_max_def well_formed_def)
  have "Min (set (map (z_of \<circ> minimumWorld) bs)) \<le> z_of (minimumWorld bb)"
    using bb by (intro Min_le) auto
  moreover have "z_of (maximumWorld bb) \<le> Max (set (map (z_of \<circ> maximumWorld) bs))"
    using bb by (intro Max_ge) auto
  ultimately show "z_of (union_min bs) \<le> z_of (union_max bs)"
    using wf by (simp add: union_min_def union_max_def well_formed_def)
qed

lemma calculateBoundingInfo_radius:
  assumes "ms \<noteq> []" and "\<forall>m\<in>set ms. counted m" and "\<forall>bb\<in>set (boxes ms). well_formed bb"
  shows "radius (calculateBoundingInfo ms) =
           Finite (max_axis (extent_of (union_min (boxes ms)) (union_max (boxes ms))) / 2)"
proof -
  from assms(1,2) have "boxes ms \<noteq> []"
    by (cases ms) (auto simp: boxes_Cons dest: counted_box)
  from union_ordered [OF this assms(3)] show ?thesis
    by (simp add: calculateBoundingInfo_union [OF assms(1,2)] extent_of_def max_axis_def)
qed

subsection \<open>The example of the specification\<close>

lemma example_counted: "list_all counted example_nodes"
  by (simp add: example_nodes_def node_def counted_def js_includes_def sublist_code)

lemma example_boxes:
  "boxes example_nodes =
     [\<lparr> minimumWorld = Vector3 (-1) (-1) (-1), maximumWorld = Vector3 1 1 1 \<rparr>,
      \<lparr> minimumWorld = Vector3 0 0 0, maximumWorld = Vector3 2 2 2 \<rparr>]"
  by (simp add: example_nodes_def node_def boxes_Cons boxes_Nil)

lemma example_union:
  "union_min (boxes example_nodes) = Vector3 (-1) (-1) (-1)"
  "union_max (boxes example_nodes) = Vector3 2 2 2"
  by (simp_all add: example_boxes union_min_def union_max_def)

lemma example_frameMeshes:
  "frameMeshes example_nodes =
     Inr (Some \<lparr> fr_min = Vector3 (-1) (-1) (-1), fr_max = Vector3 2 2 2,
                 fr_center = Vector3 (1/2) (1/2) (1/2), fr_extents = Vector3 3 3 3,
                 fr_size = 3, fr_radius = 9/2 \<rparr>)"
  by (simp add: frameMeshes_def example_nodes_def node_def frame_of_def Center_def subtract_def
        max_axis_def Minimize_def Maximize_def)

lemma example_calculateBoundingInfo:
  "calculateBoundingInfo example_nodes =
     \<lparr> center = Vector3 (Finite (1/2)) (Finite (1/2)) (Finite (1/2)), radius = Finite (3/2) \<rparr>"
  by (simp add: calculateBoundingInfo_def example_nodes_def node_def accumulate_def counted_def
        js_includes_def sublist_code initial_bounds_def strict_eq_def js_sub_def Let_def)

subsection \<open>Disposal of a mesh\<close>

lemma indexOf_None: "(indexOf ms k = None) = (k \<notin> set ms)"
  by (induction ms) auto

lemma indexOf_Some: "indexOf ms k = Some i \<Longrightarrow> i < length ms \<and> ms ! i = k"
  by (induction ms arbitrary: i) (auto split: if_splits)

lemma mset_swap_remove:
  assumes "i < length ms"
  shows "mset (butlast (ms [i := last ms])) = mset ms - {#ms ! i#}"
proof -
  from assms have "ms \<noteq> []" by auto
  then obtain ys l where ms: "ms = ys @ [l]" by (metis rev_exhaust)
  show ?thesis
  proof (cases "i < length ys")
    case True
    then have "butlast (ms [i := last ms]) = ys [i := l]"
      by (simp add: ms list_update_append)
    moreover have "mset (ys [i := l]) = mset ys - {#ys ! i#} + {#l#}"
      using True by (simp add: mset_update)
    moreover have "ys ! i \<in># mset ys" using True by simp
    ultimately show ?thesis using True by (simp add: ms nth_append)
  next
    case False
    with assms have "i = length ys" by (simp add: ms)
    then show ?thesis by (simp add: ms)
  qed
qed

lemma mset_removeMesh: "mset (removeMesh k ms) = mset ms - {#k#}"
proof (cases "indexOf ms k")
  case None
  then have "k \<notin> set ms" by (simp add: indexOf_None)
  then have "k \<notin># mset ms" by simp
  with None show ?thesis by (simp add: removeMesh_def)
next
  case (Some i)
  from indexOf_Some [OF Some] mset_swap_remove [of i ms] Some
  show ?thesis by (simp add: removeMesh_def)
qed


lemma length_removeMesh: "k \<in> set ms \<Longrightarrow> length (removeMesh k ms) < length ms"
proof -
  assume k: "k \<in> set ms"
  have "size (mset (removeMesh k ms)) = size (mset ms - {#k#})" by (simp only: mset_removeMesh)
  moreover from k have "0 < length ms" by (rule length_pos_if_in_set)
  ultimately show ?thesis using k by (simp add: size_Diff_singleton)
qed

lemma instances_weight:
  "sum_list (map (job_weight n) (map Dispose (instances_of m ms))) \<le> 2 * length ms"
proof -
  have "sum_list (map (job_weight n) (map Dispose (filter (\<lambda>i. sourceMesh i = Some k) ms)))
          \<le> 2 * length ms" for k
    by (induction ms) simp_all
  then show ?thesis by (simp only: instances_of_def)
qed

text \<open>Every step shortens the scene's list or lessens the work that is left.\<close>

termination dispose_jobs
proof (relation "measures [\<lambda>(todo, ms). length ms,
                           \<lambda>(todo, ms). sum_list (map (job_weight (length ms)) todo)]")
  show "wf (measures [\<lambda>(todo, ms). length ms,
                      \<lambda>(todo, ms). sum_list (map (job_weight (length ms)) todo)])"
    by simp
next
  fix m :: mesh and todo :: "job list" and ms :: "mesh list"
  assume "m \<in> set ms \<and> sourceMesh m = None"
  then have "job_weight (length ms) (Dispose m) = 2 * length ms + 3" by simp
  with instances_weight [of "length ms" m ms]
  show "((map Dispose (instances_of m ms) @ Detach m # todo, ms), Dispose m # todo, ms)
          \<in> measures [\<lambda>(todo, ms). length ms,
                       \<lambda>(todo, ms). sum_list (map (job_weight (length ms)) todo)]"
    by simp
next
  fix m :: mesh and todo :: "job list" and ms :: "mesh list"
  show "((Detach m # todo, ms), Dispose m # todo, ms)
          \<in> measures [\<lambda>(todo, ms). length ms,
                       \<lambda>(todo, ms). sum_list (map (job_weight (length ms)) todo)]"
    by simp
next
  fix m :: mesh and todo :: "job list" and ms :: "mesh list"
  assume "m \<in> set ms"
  then show "((map Dispose (children_of m (removeMesh m ms)) @ todo, removeMesh m ms),
              Detach m # todo, ms)
          \<in> measures [\<lambda>(todo, ms). length ms,
                       \<lambda>(todo, ms). sum_list (map (job_weight (length ms)) todo)]"
    by (simp add: length_removeMesh)
next
  fix m :: mesh and todo :: "job list" and ms :: "mesh list"
  show "((todo, ms), Detach m # todo, ms)
          \<in> measures [\<lambda>(todo, ms). length ms,
                       \<lambda>(todo, ms). sum_list (map (job_weight (length ms)) todo)]"
    by simp
qed

lemma mset_diff_mono: "A \<subseteq># B \<Longrightarrow> A - C \<subseteq># B - C"
  by (rule mset_subset_eqI) (simp add: mset_subset_eq_count diff_le_mono)

declare dispose_jobs.simps [simp del]

lemma dispose_jobs_Nil: "dispose_jobs [] ms = ms"
  by (simp add: dispose_jobs.simps)

lemma dispose_jobs_Dispose:
  "m \<in> set ms \<and> sourceMesh m = None \<Longrightarrow>
     dispose_jobs (Dispose m # todo) ms =
       dispose_jobs (map Dispose (instances_of m ms) @ Detach m # todo) ms"
  "\<not> (m \<in> set ms \<and> sourceMesh m = None) \<Longrightarrow>
     dispose_jobs (Dispose m # todo) ms = dispose_jobs (Detach m # todo) ms"
  by (subst dispose_jobs.simps(2), auto)+

lemma dispose_jobs_Detach:
  "m \<in> set ms \<Longrightarrow>
     dispose_jobs (Detach m # todo) ms =
       dispose_jobs (map Dispose (children_of m (removeMesh m ms)) @ todo) (removeMesh m ms)"
  "m \<notin> set ms \<Longrightarrow> dispose_jobs (Detach m # todo) ms = dispose_jobs todo ms"
  by (subst dispose_jobs.simps(3), auto)+

lemma dispose_jobs_mset: "mset (dispose_jobs todo ms) \<subseteq># mset ms"
proof (induction todo ms rule: dispose_jobs.induct)
  case (1 ms)
  show ?case by (simp add: dispose_jobs_Nil)
next
  case (2 m todo ms)
  show ?case
  proof (cases "m \<in> set ms \<and> sourceMesh m = None")
    case True
    from 2(1) [OF True] show ?thesis by (simp only: dispose_jobs_Dispose(1) [OF True])
  next
    case False
    from 2(2) [OF False] show ?thesis by (simp only: dispose_jobs_Dispose(2) [OF False])
  qed
next
  case (3 m todo ms)
  show ?case
  proof (cases "m \<in> set ms")
    case True
    from 3(1) [OF True]
    have "mset (dispose_jobs (map Dispose (children_of m (removeMesh m ms)) @ todo) (removeMesh m ms))
            \<subseteq># mset ms - {#m#}"
      by (simp only: mset_removeMesh)
    also have "mset ms - {#m#} \<subseteq># mset ms" by simp
    finally show ?thesis by (simp only: dispose_jobs_Detach(1) [OF True])
  next
    case False
    from 3(2) [OF False] show ?thesis by (simp only: dispose_jobs_Detach(2) [OF False])
  qed
qed

text \<open>A mesh for which a job stands in the work list is out of the scene in the end.\<close>

lemma dispose_jobs_removes:
  "Dispose k \<in> set todo \<or> Detach k \<in> set todo \<Longrightarrow>
     mset (dispose_jobs todo ms) \<subseteq># mset ms - {#k#}"
proof (induction todo ms rule: dispose_jobs.induct)
  case (1 ms)
  then show ?case by simp
next
  case (2 m todo ms)
  show ?case
  proof (cases "m \<in> set ms \<and> sourceMesh m = None")
    case True
    from 2(3) have "Dispose k \<in> set (map Dispose (instances_of m ms) @ Detach m # todo)
                     \<or> Detach k \<in> set (map Dispose (instances_of m ms) @ Detach m # todo)"
      by auto
    from 2(1) [OF True this] show ?thesis by (simp only: dispose_jobs_Dispose(1) [OF True])
  next
    case False
    from 2(3) have "Dispose k \<in> set (Detach m # todo) \<or> Detach k \<in> set (Detach m # todo)"
      by auto
    from 2(2) [OF False this] show ?thesis by (simp only: dispose_jobs_Dispose(2) [OF False])
  qed
next
  case (3 m todo ms)
  show ?case
  proof (cases "m \<in> set ms")
    case True
    let ?todo = "map Dispose (children_of m (removeMesh m ms)) @ todo"
    have r: "dispose_jobs (Detach m # todo) ms = dispose_jobs ?todo (removeMesh m ms)"
      by (rule dispose_jobs_Detach(1) [OF True])
    show ?thesis
    proof (cases "m = k")
      case True
      have "mset (dispose_jobs ?todo (removeMesh m ms)) \<subseteq># mset (removeMesh m ms)"
        by (rule dispose_jobs_mset)
      then have "mset (dispose_jobs (Detach m # todo) ms) \<subseteq># mset ms - {#m#}"
        by (simp only: r mset_removeMesh)
      with True show ?thesis by simp
    next
      case False
      with 3(3) have "Dispose k \<in> set ?todo \<or> Detach k \<in> set ?todo" by auto
      from 3(1) [OF True this]
      have "mset (dispose_jobs ?todo (removeMesh m ms)) \<subseteq># mset ms - {#m#} - {#k#}"
        by (simp only: mset_removeMesh)
      also have "\<dots> \<subseteq># mset ms - {#k#}"
        by (rule mset_diff_mono) simp
      finally show ?thesis by (simp only: r)
    qed
  next
    case False
    then have r: "dispose_jobs (Detach m # todo) ms = dispose_jobs todo ms"
      by (rule dispose_jobs_Detach(2))
    show ?thesis
    proof (cases "m = k")
      case True
      with False have "k \<notin># mset ms" by simp
      moreover have "mset (dispose_jobs todo ms) \<subseteq># mset ms" by (rule dispose_jobs_mset)
      ultimately show ?thesis by (simp add: r)
    next
      case m: False
      with 3(3) have "Dispose k \<in> set todo \<or> Detach k \<in> set todo" by auto
      from 3(2) [OF False this] show ?thesis by (simp only: r)
    qed
  qed
qed

lemma dispose_mesh_mset: "mset (dispose_mesh m ms) \<subseteq># mset ms - {#m#}"
  unfolding dispose_mesh_def by (rule dispose_jobs_removes) simp







subsection \<open>clearModels\<close>








subsection \<open>Disposing a list of meshes\<close>

lemma fold_dispose_mesh_upper: "mset (fold dispose_mesh todo ms) \<subseteq># mset ms - mset todo"
proof (induction todo arbitrary: ms)
  case Nil
  show ?case by simp
next
  case (Cons m todo)
  have "mset (fold dispose_mesh todo (dispose_mesh m ms)) \<subseteq># mset (dispose_mesh m ms) - mset todo"
    by (rule Cons)
  also have "\<dots> \<subseteq># (mset ms - {#m#}) - mset todo"
    by (rule mset_diff_mono [OF dispose_mesh_mset])
  finally show ?case by simp
qed

lemma fold_dispose_mesh_Nil: "fold dispose_mesh ms [] = []"
  using fold_dispose_mesh_upper [of ms "[]"] by simp

lemma fold_dispose_mesh_self: "fold dispose_mesh ms ms = []"
  using fold_dispose_mesh_upper [of ms ms] by simp

section \<open>Facts about the handlers\<close>

subsection \<open>Requests before the component is ready\<close>

lemma loadModelIntoViewer_not_ready:
  "\<not> vw_isViewerReady v \<or> vw_viewerInstance v = None \<Longrightarrow>
      loadModelIntoViewer file v = v \<lparr> vw_loadError := Some ''Viewer not ready. Cannot load model.'' \<rparr>"
  by (cases "vw_isViewerReady v"; cases "vw_viewerInstance v") (simp_all add: loadModelIntoViewer_def)

lemma clearModel_not_ready:
  "\<not> vw_isViewerReady v \<or> vw_viewerInstance v = None \<Longrightarrow> clearModel v = v"
  by (cases "vw_isViewerReady v"; cases "vw_viewerInstance v") (simp_all add: clearModel_def)

lemma handleFileImport_no_scene: "cv_scene c = None \<Longrightarrow> handleFileImport files c = c"
  by (cases files) (simp_all add: handleFileImport_def)

lemma handleFileSelected_no_scene: "up_scene u = None \<Longrightarrow> handleFileSelected files u = u"
  by (cases files) (simp_all add: handleFileSelected_def)

lemma loadModel_no_scene: "up_scene u = None \<Longrightarrow> loadModel url u = u"
  by (simp add: loadModel_def)

subsection \<open>Teardown\<close>

lemma disposeBabylon_twice: "disposeBabylon (disposeBabylon u) = disposeBabylon u"
  by (simp add: disposeBabylon_def Let_def)

lemma disposeBabylon_null: "\<not> up_engine u \<Longrightarrow> disposeBabylon u = u \<lparr> up_resize_listener := False \<rparr>"
  by (simp add: disposeBabylon_def Let_def)

lemma disposeBabylon_handles:
  "\<not> up_engine (disposeBabylon u)"
  "up_engine u \<Longrightarrow> up_scene (disposeBabylon u) = None"
  "up_engine u \<Longrightarrow> up_camera (disposeBabylon u) = None"
  by (simp_all add: disposeBabylon_def Let_def)

lemma canvas_onBeforeUnmount_closed: "canvas_onBeforeUnmount c = torn_down c"
proof (cases "cv_scene c")
  case None
  show ?thesis
  proof (cases "cv_engine c")
    case None
    with \<open>cv_scene c = None\<close> show ?thesis
      by (simp add: canvas_onBeforeUnmount_def torn_down_def Let_def)
  next
    case (Some a)
    with \<open>cv_scene c = None\<close> show ?thesis
      by (simp add: canvas_onBeforeUnmount_def torn_down_def Let_def)
  qed
next
  case (Some sc)
  show ?thesis
  proof (cases "cv_engine c")
    case None
    with \<open>cv_scene c = Some sc\<close> show ?thesis
      by (simp add: canvas_onBeforeUnmount_def torn_down_def Let_def dispose_all_def)
  next
    case (Some a)
    with \<open>cv_scene c = Some sc\<close> show ?thesis
      by (simp add: canvas_onBeforeUnmount_def torn_down_def Let_def dispose_all_def)
  qed
qed

lemma torn_down_twice: "torn_down (torn_down c) = torn_down c"
  by (cases "cv_scene c"; cases "cv_engine c") (simp_all add: torn_down_def)

lemma torn_down_null:
  "cv_engine c = None \<Longrightarrow> cv_scene c = None \<Longrightarrow>
     torn_down c = c \<lparr> cv_scroll_listeners := cv_scroll_listeners c \<and> \<not> cv_canvasRef c,
                        cv_resize_listener := cv_resize_listener c \<and> \<not> cv_resizeHandler c \<rparr>"
  by (simp add: torn_down_def)

subsection \<open>Reporting a failure\<close>

lemma or_else_nonempty: "d \<noteq> [] \<Longrightarrow> or_else m d \<noteq> []"
  by (simp add: or_else_def)

lemma toString_nonempty: "toString e \<noteq> []"
  by (simp add: toString_def)

lemma onModelError_reports:
  "shown (vw_loadError (onModelError ev v))"
  "\<not> vw_isModelLoaded (onModelError ev v)"
  "\<not> vw_isLoading (onModelError ev v)"
  by (simp_all add: onModelError_def shown_def or_else_def toString_def split: option.splits)

lemma loadModelIntoViewer_catch_reports:
  "shown (vw_loadError (loadModelIntoViewer_catch e v))"
  "\<not> vw_isModelLoaded (loadModelIntoViewer_catch e v)"
  "\<not> vw_isLoading (loadModelIntoViewer_catch e v)"
  by (simp_all add: loadModelIntoViewer_catch_def shown_def or_else_def)

lemma report_error_fields:
  "shown (up_errorLoading (report_error e u))"
  "up_hasModel (report_error e u) = up_hasModel u"
  "up_scene (report_error e u) = up_scene u"
  "up_camera (report_error e u) = up_camera u"
  "up_pending (report_error e u) = up_pending u"
  "up_isLoading (report_error e u) = up_isLoading u"
  by (simp_all add: report_error_def shown_def or_else_def)

lemma attach_meshes_fields:
  "up_hasModel (attach_meshes ms u) = up_hasModel u"
  "up_errorLoading (attach_meshes ms u) = up_errorLoading u"
  "up_camera (attach_meshes ms u) = up_camera u"
  "up_pending (attach_meshes ms u) = up_pending u"
  "up_isLoading (attach_meshes ms u) = up_isLoading u"
  by (cases "up_scene u"; simp add: attach_meshes_def)+

lemma model_arrived_Inr:
  "model_arrived label ms u = Inr u' \<Longrightarrow>
     up_hasModel u' \<and> up_errorLoading u' = up_errorLoading u \<and> up_scene u' = up_scene u
     \<and> up_pending u' = up_pending u"
  by (cases "frame_camera ms (up_camera u)") (auto simp: model_arrived_def)

lemma import_settled_rejected:
  "import_settled label (Inl e) u = (report_error e u) \<lparr> up_isLoading := False \<rparr>"
  by (simp add: import_settled_def)

lemma import_settled_raised:
  "model_arrived label ms (attach_meshes ms u) = Inl e \<Longrightarrow>
     import_settled label (Inr ms) u = (report_error e (attach_meshes ms u)) \<lparr> up_isLoading := False \<rparr>"
  by (simp add: import_settled_def)

lemma import_settled_arrived:
  "model_arrived label ms (attach_meshes ms u) = Inr u' \<Longrightarrow>
     import_settled label (Inr ms) u = u' \<lparr> up_isLoading := False \<rparr>"
  by (simp add: import_settled_def)

lemma import_settled_not_loading: "\<not> up_isLoading (import_settled label r u)"
  by (simp add: import_settled_def Let_def)

lemma handleFileSelected_done_not_loading: "\<not> up_isLoading (handleFileSelected_done file out u)"
  by (cases out) (simp_all add: handleFileSelected_done_def import_settled_not_loading)

lemma handleFileSelected_done_failed:
  "read_failed out \<Longrightarrow> shown (up_errorLoading (handleFileSelected_done file out u))"
  by (cases out)
     (simp_all add: handleFileSelected_done_def read_failed_def import_settled_rejected
        report_error_fields, simp_all add: shown_def)

lemma handleFileSelected_done_failed_hasModel:
  "read_failed out \<Longrightarrow> up_hasModel (handleFileSelected_done file out u) = up_hasModel u"
  by (cases out)
     (simp_all add: handleFileSelected_done_def read_failed_def import_settled_rejected
        report_error_fields)

lemma handleFileImport_done_failed:
  "import_failed out \<Longrightarrow> error_status (cv_loadingStatus (handleFileImport_done out c))"
  by (cases out) (simp_all add: handleFileImport_done_def import_failed_def error_status_def)

lemma error_status_not_loading: "error_status t \<Longrightarrow> t \<noteq> ''Loading '' @ file @ ''...''"
  by (auto simp: error_status_def)

lemma loadModelIntoViewer_no_method:
  "vw_isViewerReady v \<Longrightarrow> vw_viewerInstance v = Some i \<Longrightarrow> \<not> has_loadModel i \<Longrightarrow>
     loadModelIntoViewer file v =
       loadModelIntoViewer_catch (Error ''viewerInstance.value.loadModel is not a function'')
         (v \<lparr> vw_isLoading := True, vw_loadError := None \<rparr>)"
  by (simp add: loadModelIntoViewer_def)

lemma loadModelIntoViewer_catch_pending:
  "vw_pending (loadModelIntoViewer_catch e v) = vw_pending v"
  by (simp add: loadModelIntoViewer_catch_def)

subsection \<open>One load from request to end\<close>

lemma upload_run_two:
  "upload_run u [a, b] = Some u' \<longleftrightarrow>
     (\<exists>u1. upload_step u a = Some u1 \<and> upload_step u1 b = Some u')"
  by (simp split: option.splits)

lemma viewer_run_two:
  "viewer_run v [a, b] = Some v' \<longleftrightarrow>
     (\<exists>v1. viewer_step v a = Some v1 \<and> viewer_step v1 b = Some v')"
  by (simp split: option.splits)

lemma file_load_cycle:
  assumes "up_pending u = []"
    and "upload_run u [FileSelected (Some file), Finished out] = Some u'"
  shows "\<not> up_hasModel u"
    and "u' = handleFileSelected_done file out
                (u \<lparr> up_isLoading := True, up_errorLoading := None, up_pending := [] \<rparr>)"
proof -
  from assms(2) [unfolded upload_run_two] obtain u1 where
    s1: "upload_step u (FileSelected (Some file)) = Some u1" and
    s2: "upload_step u1 (Finished out) = Some u'"
    by blast
  from s1 have shown: "add_model_shown u" and u1: "u1 = handleFileSelected (Some file) u"
    by (simp_all add: upload_step_def split: if_splits)
  from shown show "\<not> up_hasModel u" by (simp add: add_model_shown_def)
  show "u' = handleFileSelected_done file out
                (u \<lparr> up_isLoading := True, up_errorLoading := None, up_pending := [] \<rparr>)"
  proof (cases "up_scene u")
    case None
    then have "u1 = u" by (simp add: u1 handleFileSelected_no_scene)
    with s2 assms(1) show ?thesis by (simp add: upload_step_def)
  next
    case (Some sc)
    then have "u1 = u \<lparr> up_isLoading := True, up_errorLoading := None,
                        up_pending := [FileRead file] \<rparr>"
      by (simp add: u1 handleFileSelected_def assms(1))
    with s2 show ?thesis by (simp add: upload_step_def upload_finish_def)
  qed
qed

lemma import_settled_outcome:
  assumes "\<not> up_hasModel w" and "up_errorLoading w = None"
  shows "(up_hasModel (import_settled label r w) \<and> up_errorLoading (import_settled label r w) = None)
         \<or> (\<not> up_hasModel (import_settled label r w) \<and> shown (up_errorLoading (import_settled label r w)))"
proof (cases r)
  case (Inl e)
  then show ?thesis
    by (simp add: import_settled_rejected report_error_fields assms)
next
  case (Inr ms)
  show ?thesis
  proof (cases "model_arrived label ms (attach_meshes ms w)")
    case (Inl e)
    then show ?thesis
      by (simp add: Inr import_settled_raised report_error_fields attach_meshes_fields assms)
  next
    case (Inr w')
    from model_arrived_Inr [OF this] show ?thesis
      by (simp add: \<open>r = Inr ms\<close> import_settled_arrived [OF Inr] attach_meshes_fields assms)
  qed
qed

lemma import_settled_rejected_outcome:
  "\<not> up_hasModel w \<Longrightarrow>
     \<not> up_hasModel (import_settled label (Inl e) w) \<and> shown (up_errorLoading (import_settled label (Inl e) w))"
  by (simp add: import_settled_rejected report_error_fields)

lemma handleFileSelected_done_outcome:
  assumes "\<not> up_hasModel w" and "up_errorLoading w = None"
  shows "(up_hasModel (handleFileSelected_done file out w)
            \<and> up_errorLoading (handleFileSelected_done file out w) = None)
         \<or> (\<not> up_hasModel (handleFileSelected_done file out w)
            \<and> shown (up_errorLoading (handleFileSelected_done file out w)))"
proof (cases out)
  case ReaderFailed
  then show ?thesis by (simp add: handleFileSelected_done_def assms shown_def)
next
  case EmptyResult
  then show ?thesis by (simp add: handleFileSelected_done_def assms shown_def)
next
  case (ImportRejected e)
  then show ?thesis
    using import_settled_outcome [OF assms, of "file" "Inl e"] by (simp add: handleFileSelected_done_def)
next
  case (ImportResolved ms)
  then show ?thesis
    using import_settled_outcome [OF assms, of "file" "Inr ms"] by (simp add: handleFileSelected_done_def)
qed

lemma disposeBabylon_fields:
  "up_pending (disposeBabylon u) = up_pending u"
  "up_modelUrl (disposeBabylon u) = up_modelUrl u"
  "up_hasModel (disposeBabylon u) = up_hasModel u"
  by (simp_all add: disposeBabylon_def Let_def)

lemma loadModel_pending:
  "up_pending (loadModel url w) = up_pending w
   \<or> (up_pending (loadModel url w) = up_pending w @ [UrlImport url]
       \<and> up_hasModel (loadModel url w) = up_hasModel w
       \<and> up_errorLoading (loadModel url w) = None
       \<and> up_scene (loadModel url w) = up_scene w
       \<and> up_camera (loadModel url w) = up_camera w)"
  by (cases "up_scene w") (simp_all add: loadModel_def Let_def)

lemma loadModel_unchanged_fields:
  "up_hasModel (loadModel url w) = up_hasModel w"
  "up_scene (loadModel url w) = up_scene w"
  "up_camera (loadModel url w) = up_camera w"
  "up_engine (loadModel url w) = up_engine w"
  by (cases "up_scene w"; simp add: loadModel_def Let_def)+

lemma initializeBabylon_no_canvas: "\<not> up_babylonCanvas u \<Longrightarrow> initializeBabylon k u = u"
  by (simp add: initializeBabylon_def)

lemma initializeBabylon_failed:
  "up_babylonCanvas u \<Longrightarrow> k \<noteq> Created \<Longrightarrow>
     up_pending (initializeBabylon k u) = up_pending u
     \<and> \<not> up_hasModel (initializeBabylon k u)
     \<and> \<not> up_isLoading (initializeBabylon k u)
     \<and> shown (up_errorLoading (initializeBabylon k u))"
  by (cases k)
     (simp_all add: initializeBabylon_def Let_def report_error_fields disposeBabylon_fields)

lemma initializeBabylon_created:
  "up_babylonCanvas u \<Longrightarrow>
     initializeBabylon Created u =
       (let s3 = (disposeBabylon u)
                   \<lparr> up_isLoading := True, up_errorLoading := None, up_hasModel := False,
                     up_engine := True, up_scene := Some [], up_camera := Some upload_camera,
                     up_renderLoop := True, up_resize_listener := True \<rparr>
        in if up_modelUrl s3 \<noteq> []
           then (let s4 = loadModel (up_modelUrl s3) s3
                 in if up_pending s4 = up_pending s3 then s4 \<lparr> up_isLoading := False \<rparr> else s4)
           else s3 \<lparr> up_isLoading := False \<rparr>)"
  by (simp add: initializeBabylon_def Let_def)

lemma initializeBabylon_pending:
  "up_pending (initializeBabylon k u) = up_pending u
   \<or> (up_pending (initializeBabylon k u) = up_pending u @ [UrlImport (up_modelUrl u)]
       \<and> \<not> up_hasModel (initializeBabylon k u)
       \<and> up_errorLoading (initializeBabylon k u) = None
       \<and> up_scene (initializeBabylon k u) = Some []
       \<and> up_camera (initializeBabylon k u) = Some upload_camera)"
proof (cases "up_babylonCanvas u")
  case False
  then show ?thesis by (simp add: initializeBabylon_no_canvas)
next
  case True
  show ?thesis
  proof (cases "k = Created")
    case False
    with True show ?thesis by (simp add: initializeBabylon_failed)
  next
    case k: True
    define s3 where "s3 = (disposeBabylon u)
                   \<lparr> up_isLoading := True, up_errorLoading := None, up_hasModel := False,
                     up_engine := True, up_scene := Some [], up_camera := Some upload_camera,
                     up_renderLoop := True, up_resize_listener := True \<rparr>"
    have f: "up_pending s3 = up_pending u" "up_modelUrl s3 = up_modelUrl u" "\<not> up_hasModel s3"
      "up_scene s3 = Some []" "up_camera s3 = Some upload_camera"
      by (simp_all add: s3_def disposeBabylon_fields)
    have eq: "initializeBabylon k u =
        (if up_modelUrl s3 \<noteq> []
           then (let s4 = loadModel (up_modelUrl s3) s3
                 in if up_pending s4 = up_pending s3 then s4 \<lparr> up_isLoading := False \<rparr> else s4)
           else s3 \<lparr> up_isLoading := False \<rparr>)"
      by (simp add: k initializeBabylon_created [OF True] s3_def Let_def)
    show ?thesis
    proof (cases "up_modelUrl s3 = []")
      case True
      then show ?thesis by (simp add: eq f)
    next
      case False
      from loadModel_pending [of "up_modelUrl s3" s3] show ?thesis
        by (auto simp: eq False f Let_def)
    qed
  qed
qed

lemma url_load_cycle:
  assumes "up_pending u = []"
    and "upload_run u [Mounted k, Finished out] = Some u'"
  shows "\<exists>w r. \<not> up_hasModel w \<and> up_errorLoading w = None
            \<and> u' = import_settled (up_modelUrl u) r w
            \<and> (read_failed out \<longrightarrow> (\<exists>e. r = Inl e))"
proof -
  from assms(2) [unfolded upload_run_two] obtain u1 where
    s1: "upload_step u (Mounted k) = Some u1" and
    s2: "upload_step u1 (Finished out) = Some u'"
    by blast
  from s1 have u1: "u1 = initializeBabylon k u" by (simp add: upload_step_def)
  from s2 have ne: "up_pending u1 \<noteq> []" by (auto simp: upload_step_def)
  with initializeBabylon_pending [of k u] assms(1) u1
  have p: "up_pending u1 = [UrlImport (up_modelUrl u)]"
    and h: "\<not> up_hasModel u1" and e: "up_errorLoading u1 = None"
    by auto
  let ?w = "u1 \<lparr> up_pending := [] \<rparr>"
  have w: "\<not> up_hasModel ?w" "up_errorLoading ?w = None" using h e by simp_all
  from s2 p have fin: "upload_finish (UrlImport (up_modelUrl u)) out ?w = Some u'"
    by (simp add: upload_step_def)
  show ?thesis
  proof (cases out)
    case ReaderFailed
    with fin show ?thesis by (simp add: upload_finish_def)
  next
    case EmptyResult
    with fin show ?thesis by (simp add: upload_finish_def)
  next
    case (ImportRejected e)
    with fin have "u' = import_settled (up_modelUrl u) (Inl e) ?w" by (simp add: upload_finish_def)
    with w show ?thesis by blast
  next
    case (ImportResolved ms)
    with fin have "u' = import_settled (up_modelUrl u) (Inr ms) ?w" by (simp add: upload_finish_def)
    moreover have "\<not> read_failed out" by (simp add: ImportResolved read_failed_def)
    ultimately show ?thesis using w by blast
  qed
qed

lemma viewer_load_cycle:
  assumes "vw_pending v = []"
    and "viewer_run v [InputChange (Some file), Settled vo] = Some v'"
  shows "v' = settle (LoadFile file) vo
                (v \<lparr> vw_currentFile := Some file, vw_isLoading := True, vw_loadError := None,
                     vw_pending := [] \<rparr>)"
proof -
  from assms(2) [unfolded viewer_run_two] obtain v1 where
    s1: "viewer_step v (InputChange (Some file)) = Some v1" and
    s2: "viewer_step v1 (Settled vo) = Some v'"
    by blast
  from s1 have en: "\<not> file_input_disabled v" and v1: "v1 = handleFileChange (Some file) v"
    by (simp_all add: viewer_step_def split: if_splits)
  from en have ready: "vw_isViewerReady v" by (simp add: file_input_disabled_def)
  from s2 have ne: "vw_pending v1 \<noteq> []" by (auto simp: viewer_step_def)
  let ?v0 = "v \<lparr> vw_currentFile := Some file \<rparr>"
  have v1': "v1 = loadModelIntoViewer file ?v0" by (simp add: v1 handleFileChange_def)
  show ?thesis
  proof (cases "vw_viewerInstance v")
    case None
    then have "v1 = ?v0 \<lparr> vw_loadError := Some ''Viewer not ready. Cannot load model.'' \<rparr>"
      by (simp add: v1' loadModelIntoViewer_not_ready)
    with ne assms(1) show ?thesis by simp
  next
    case (Some i)
    show ?thesis
    proof (cases "has_loadModel i")
      case False
      have "vw_pending v1 = vw_pending ?v0"
        unfolding v1'
        by (subst loadModelIntoViewer_no_method [of ?v0 i])
           (simp_all add: ready Some False loadModelIntoViewer_catch_pending)
      with ne assms(1) show ?thesis by simp
    next
      case True
      have "v1 = v \<lparr> vw_currentFile := Some file, vw_isLoading := True, vw_loadError := None,
                     vw_pending := [LoadFile file] \<rparr>"
        by (simp add: v1' loadModelIntoViewer_def ready Some True assms(1))
      with s2 show ?thesis by (simp add: viewer_step_def)
    qed
  qed
qed

lemma settle_changed:
  "vw_listening w \<Longrightarrow>
     vw_isModelLoaded (settle (LoadFile file) (Changed True) w)
     \<and> vw_loadError (settle (LoadFile file) (Changed True) w) = None
     \<and> \<not> vw_isLoading (settle (LoadFile file) (Changed True) w)"
  by (simp add: settle_def dispatch_def onModelChange_def rejection_of_def
        loadModelIntoViewer_settled_def Let_def)

lemma settle_rejected:
  "rejection_of vo = Some e \<Longrightarrow>
     \<not> vw_isModelLoaded (settle (LoadFile file) vo w)
     \<and> shown (vw_loadError (settle (LoadFile file) vo w))
     \<and> \<not> vw_isLoading (settle (LoadFile file) vo w)"
  by (simp add: settle_def loadModelIntoViewer_settled_def loadModelIntoViewer_catch_reports)

lemma ready_viewer_fields:
  "vw_pending ready_viewer = []" "vw_listening ready_viewer" "vw_isViewerReady ready_viewer"
  "\<not> vw_isLoading ready_viewer"
  "vw_viewerInstance ready_viewer = Some \<lparr> has_loadModel = True, has_dispose = True \<rparr>"
  by (simp_all add: ready_viewer_def onViewerReady_def viewer_initial_def)

lemma ready_upload_fields:
  "up_pending ready_upload = []" "up_scene ready_upload = Some []" "\<not> up_hasModel ready_upload"
  "\<not> up_isLoading ready_upload" "up_camera ready_upload = Some upload_camera"
  by (simp_all add: ready_upload_def initializeBabylon_def upload_initial_def disposeBabylon_def Let_def)

lemma rejected_viewer_run:
  "viewer_run ready_viewer [InputChange (Some ''a.glb''), Settled (Rejected (Error ''bad''))]
     = Some rejected_viewer"
  by (simp add: viewer_step_def file_input_disabled_def handleFileChange_def loadModelIntoViewer_def
        ready_viewer_fields settle_def dispatch_def rejection_of_def loadModelIntoViewer_settled_def
        loadModelIntoViewer_catch_def or_else_def rejected_viewer_def)
     (simp add: ready_viewer_def onViewerReady_def viewer_initial_def)

lemma reloaded_viewer_run:
  "\<exists>v2. viewer_run rejected_viewer [InputChange (Some ''b.glb''), Settled (Changed True)] = Some v2"
  by (simp add: viewer_step_def file_input_disabled_def handleFileChange_def loadModelIntoViewer_def
        ready_viewer_fields settle_def dispatch_def rejection_of_def loadModelIntoViewer_settled_def
        onModelChange_def rejected_viewer_def)

lemma rejected_upload_run:
  "upload_run ready_upload [FileSelected (Some ''a.glb''), Finished (ImportRejected (Error ''bad''))]
     = Some rejected_upload"
  by (simp add: upload_step_def add_model_shown_def handleFileSelected_def ready_upload_fields
        upload_finish_def handleFileSelected_done_def import_settled_def report_error_def or_else_def
        rejected_upload_def)
     (simp add: ready_upload_def initializeBabylon_def upload_initial_def disposeBabylon_def Let_def)

lemma reloaded_upload_run:
  "\<exists>u2. upload_run rejected_upload [FileSelected (Some ''b.glb''), Finished (ImportResolved example_nodes)]
     = Some u2"
  by (simp add: upload_step_def add_model_shown_def handleFileSelected_def ready_upload_fields
        upload_finish_def rejected_upload_def)

lemma onViewerReady_keeps:
  "vw_pending (onViewerReady d s) = vw_pending s"
  "vw_isLoading (onViewerReady d s) = vw_isLoading s"
  by (cases d; simp add: onViewerReady_def)+

lemma loadModelIntoViewer_inv:
  "vw_pending s = [] \<Longrightarrow> viewer_inv (loadModelIntoViewer fname s)"
proof (cases "vw_isViewerReady s \<and> vw_viewerInstance s \<noteq> None")
  case False
  assume "vw_pending s = []"
  with False show ?thesis
    by (simp add: loadModelIntoViewer_not_ready viewer_inv_def)
next
  case True
  assume p: "vw_pending s = []"
  from True obtain i where r: "vw_isViewerReady s" and i: "vw_viewerInstance s = Some i" by auto
  show ?thesis
  proof (cases "has_loadModel i")
    case True
    then show ?thesis by (simp add: loadModelIntoViewer_def r i p viewer_inv_def)
  next
    case False
    show ?thesis
      by (simp add: loadModelIntoViewer_no_method [OF r i False] loadModelIntoViewer_catch_pending
            viewer_inv_def p)
  qed
qed

lemma handleFileChange_inv:
  "vw_pending s = [] \<Longrightarrow> viewer_inv (handleFileChange files s)"
  by (cases files) (simp_all add: handleFileChange_def loadModelIntoViewer_inv, simp add: viewer_inv_def)

lemma clearModel_inv:
  "vw_pending s = [] \<Longrightarrow> viewer_inv (clearModel s)"
proof (cases "vw_isViewerReady s \<and> vw_viewerInstance s \<noteq> None")
  case False
  assume "vw_pending s = []"
  with False show ?thesis
    by (simp add: clearModel_not_ready viewer_inv_def)
next
  case True
  assume p: "vw_pending s = []"
  from True obtain i where r: "vw_isViewerReady s" and i: "vw_viewerInstance s = Some i" by auto
  show ?thesis
    by (cases "has_loadModel i") (simp_all add: clearModel_def r i p viewer_inv_def)
qed

lemma settle_pending: "vw_pending (settle call out s) = vw_pending s"
  by (cases call; cases out)
     (simp_all add: settle_def dispatch_def rejection_of_def loadModelIntoViewer_settled_def
        loadModelIntoViewer_catch_def clearModel_settled_def onModelChange_def onModelError_def Let_def)

lemma viewer_step_inv:
  assumes "viewer_inv s" and "viewer_step s ev = Some s'"
  shows "viewer_inv s'"
proof (cases ev)
  case (ViewerReady d)
  with assms show ?thesis
    by (auto simp: viewer_step_def viewer_inv_def onViewerReady_keeps)
next
  case (InputChange files)
  with assms(2) have en: "\<not> file_input_disabled s" and s': "s' = handleFileChange files s"
    by (simp_all add: viewer_step_def split: if_splits)
  from en assms(1) have "vw_pending s = []"
    by (auto simp: file_input_disabled_def viewer_inv_def)
  then show ?thesis unfolding s' by (rule handleFileChange_inv)
next
  case ClearClick
  with assms(2) have en: "\<not> clear_button_disabled s" and s': "s' = clearModel s"
    by (simp_all add: viewer_step_def split: if_splits)
  from en assms(1) have "vw_pending s = []"
    by (auto simp: clear_button_disabled_def viewer_inv_def)
  then show ?thesis unfolding s' by (rule clearModel_inv)
next
  case (Settled out)
  with assms(2) obtain call rest where
    p: "vw_pending s = call # rest" and s': "s' = settle call out (s \<lparr> vw_pending := rest \<rparr>)"
    by (auto simp: viewer_step_def split: list.splits)
  from p assms(1) have "rest = []" by (auto simp: viewer_inv_def)
  then show ?thesis by (simp add: s' settle_pending viewer_inv_def)
qed

lemma viewer_run_inv:
  "viewer_inv s \<Longrightarrow> viewer_run s evs = Some s' \<Longrightarrow> viewer_inv s'"
proof (induction evs arbitrary: s)
  case Nil
  then show ?case by simp
next
  case (Cons ev evs)
  from Cons.prems(2) obtain s1 where
    a: "viewer_step s ev = Some s1" and b: "viewer_run s1 evs = Some s'"
    by (auto split: option.splits)
  from viewer_step_inv [OF Cons.prems(1) a] b show ?case by (rule Cons.IH)
qed

lemma viewer_inv_gate:
  "viewer_inv s \<Longrightarrow> vw_pending s \<noteq> [] \<Longrightarrow>
     viewer_step s (InputChange files) = None \<and> viewer_step s ClearClick = None"
  by (auto simp: viewer_inv_def viewer_step_def file_input_disabled_def clear_button_disabled_def)

lemma attached_attach:
  "attached (attach ms s) = (if cv_scene s = None then [] else attached s @ ms)"
  by (cases "cv_scene s") (simp_all add: attach_def attached_def)

lemma attach_fields:
  "cv_loadedModel (attach ms s) = cv_loadedModel s"
  "cv_pending (attach ms s) = cv_pending s"
  "(cv_scene (attach ms s) = None) = (cv_scene s = None)"
  by (cases "cv_scene s"; simp add: attach_def)+

lemma onSuccess_fields:
  "cv_scene (onSuccess ms s) = cv_scene s"
  "cv_loadedModel (onSuccess ms s) = ms"
  "cv_pending (onSuccess ms s) = cv_pending s"
  by (cases "cv_activeCamera s"; simp add: onSuccess_def Let_def)+

lemma attached_onSuccess: "attached (onSuccess ms s) = attached s"
  by (simp add: attached_def onSuccess_fields)

lemma handleFileImport_done_imported:
  "attached (handleFileImport_done (Imported ms) s) = (if cv_scene s = None then [] else attached s @ ms)"
  "cv_loadedModel (handleFileImport_done (Imported ms) s) = ms"
  "cv_pending (handleFileImport_done (Imported ms) s) = cv_pending s"
  "(cv_scene (handleFileImport_done (Imported ms) s) = None) = (cv_scene s = None)"
  by (simp_all add: handleFileImport_done_def attached_onSuccess onSuccess_fields attached_attach
        attach_fields)

lemma handleFileImport_done_failed_fields:
  "import_failed out \<Longrightarrow> attached (handleFileImport_done out s) = attached s"
  "import_failed out \<Longrightarrow> cv_loadedModel (handleFileImport_done out s) = cv_loadedModel s"
  "import_failed out \<Longrightarrow> cv_pending (handleFileImport_done out s) = cv_pending s"
  "import_failed out \<Longrightarrow> cv_scene (handleFileImport_done out s) = cv_scene s"
  by (cases out; simp add: handleFileImport_done_def import_failed_def attached_def)+

lemma handleFileImport_request:
  "cv_scene s \<noteq> None \<Longrightarrow>
     attached (handleFileImport (Some fname) s) = fold dispose_mesh (cv_loadedModel s) (attached s)
     \<and> cv_loadedModel (handleFileImport (Some fname) s) = []
     \<and> cv_pending (handleFileImport (Some fname) s) = cv_pending s + 1
     \<and> cv_scene (handleFileImport (Some fname) s) \<noteq> None"
  by (cases "cv_scene s"; cases "cv_loadedModel s")
     (simp_all add: handleFileImport_def attached_def dispose_all_def Let_def)

lemma handleFileImport_None: "handleFileImport None s = s"
  by (simp add: handleFileImport_def)

lemma attached_pending: "attached (s \<lparr> cv_pending := n \<rparr>) = attached s"
  by (simp add: attached_def)

lemma attached_no_scene: "cv_scene s = None \<Longrightarrow> attached s = []"
  by (simp add: attached_def)

lemma handleFileImport_done_attached:
  "cv_scene s \<noteq> None \<Longrightarrow>
     attached (handleFileImport_done (Imported ms) (s \<lparr> cv_pending := n \<rparr>)) = attached s @ ms
     \<and> cv_loadedModel (handleFileImport_done (Imported ms) (s \<lparr> cv_pending := n \<rparr>)) = ms
     \<and> cv_pending (handleFileImport_done (Imported ms) (s \<lparr> cv_pending := n \<rparr>)) = n
     \<and> cv_scene (handleFileImport_done (Imported ms) (s \<lparr> cv_pending := n \<rparr>)) \<noteq> None"
  by (auto simp: handleFileImport_done_imported attached_pending)

lemma canvas_request_inv:
  assumes "canvas_inv s" and "cv_pending s = 0"
  shows "canvas_inv (handleFileImport files s)"
proof (cases files)
  case None
  with assms(1) show ?thesis by (simp add: handleFileImport_None)
next
  case (Some fname)
  show ?thesis
  proof (cases "cv_scene s = None")
    case True
    with assms(1) show ?thesis by (simp add: handleFileImport_no_scene)
  next
    case False
    from handleFileImport_request [OF False, of fname] assms
    show ?thesis
      by (simp add: Some canvas_inv_def fold_dispose_mesh_self)
  qed
qed

lemma canvas_done_inv:
  assumes "canvas_inv s" and "cv_pending s \<noteq> 0"
  shows "canvas_inv (handleFileImport_done out (s \<lparr> cv_pending := cv_pending s - 1 \<rparr>))"
proof -
  let ?s0 = "s \<lparr> cv_pending := cv_pending s - 1 \<rparr>"
  from assms have p: "cv_pending s = 1" and a: "attached s = []" and l: "cv_loadedModel s = []"
    and sc: "cv_scene s \<noteq> None"
    by (auto simp: canvas_inv_def)
  have s0: "attached ?s0 = []" "cv_loadedModel ?s0 = []" "cv_pending ?s0 = 0" "cv_scene ?s0 \<noteq> None"
    using p a l sc by (simp_all add: attached_pending)
  show ?thesis
  proof (cases "import_failed out")
    case True
    show ?thesis
      using s0 by (simp add: canvas_inv_def handleFileImport_done_failed_fields [OF True])
  next
    case False
    then obtain ms where out: "out = Imported ms"
      by (cases out) (simp_all add: import_failed_def)
    from handleFileImport_done_attached [OF sc, of ms "cv_pending s - 1"] a p
    show ?thesis
      by (simp add: canvas_inv_def out)
  qed
qed

lemma canvas_run_inv:
  "canvas_inv s \<Longrightarrow> one_at_a_time s evs \<Longrightarrow> canvas_run s evs = Some s' \<Longrightarrow> canvas_inv s'"
proof (induction evs arbitrary: s)
  case Nil
  then show ?case by simp
next
  case (Cons ev evs)
  from Cons.prems(3) obtain s1 where
    a: "canvas_step s ev = Some s1" and b: "canvas_run s1 evs = Some s'"
    by (auto split: option.splits)
  from Cons.prems(2) a have c: "one_at_a_time s1 evs"
    and d: "(case ev of Change _ \<Rightarrow> cv_pending s = 0 | Done _ \<Rightarrow> True)"
    by simp_all
  have "canvas_inv s1"
  proof (cases ev)
    case (Change files)
    with a d have "s1 = handleFileImport files s" and "cv_pending s = 0"
      by (simp_all add: canvas_step_def)
    with Cons.prems(1) show ?thesis
      by (simp add: canvas_request_inv)
  next
    case (Done out)
    with a have ne: "cv_pending s \<noteq> 0"
      and s1: "s1 = handleFileImport_done out (s \<lparr> cv_pending := cv_pending s - 1 \<rparr>)"
      by (simp_all add: canvas_step_def split: if_splits)
    show ?thesis
      unfolding s1 by (rule canvas_done_inv [OF Cons.prems(1) ne])
  qed
  from this c b show ?case by (rule Cons.IH)
qed

lemma canvas_replace:
  assumes "attached s = cv_loadedModel s" and "cv_pending s = 0" and "cv_scene s \<noteq> None"
  shows "attached (handleFileImport (Some fname) s) = []"
    and "\<exists>s'. canvas_run s [Change (Some fname), Done (Imported ms)] = Some s'
           \<and> attached s' = ms \<and> cv_loadedModel s' = ms \<and> cv_pending s' = 0"
proof -
  let ?s1 = "handleFileImport (Some fname) s"
  from handleFileImport_request [OF assms(3), of fname] assms(1,2)
  have r: "attached ?s1 = []" "cv_pending ?s1 = 1" "cv_scene ?s1 \<noteq> None"
    by (simp_all add: fold_dispose_mesh_self)
  show "attached ?s1 = []" by (rule r)
  let ?s2 = "handleFileImport_done (Imported ms) (?s1 \<lparr> cv_pending := cv_pending ?s1 - 1 \<rparr>)"
  have "canvas_run s [Change (Some fname), Done (Imported ms)] = Some ?s2"
    using r by (simp add: canvas_step_def)
  moreover have "attached ?s2 = ms" "cv_loadedModel ?s2 = ms" "cv_pending ?s2 = 0"
    using handleFileImport_done_attached [OF r(3), of ms "cv_pending ?s1 - 1"] r by simp_all
  ultimately show "\<exists>s'. canvas_run s [Change (Some fname), Done (Imported ms)] = Some s'
           \<and> attached s' = ms \<and> cv_loadedModel s' = ms \<and> cv_pending s' = 0"
    by blast
qed

lemma canvas_overlap:
  assumes "attached s = []" and "cv_loadedModel s = []" and "cv_scene s \<noteq> None" and "cv_pending s = 0"
  shows "\<exists>s2. canvas_run s [Change (Some a), Change (Some b)] = Some s2 \<and> cv_pending s2 = 2"
    and "\<exists>s4. canvas_run s [Change (Some a), Change (Some b), Done (Imported ms1), Done (Imported ms2)]
                 = Some s4
           \<and> attached s4 = ms1 @ ms2 \<and> cv_loadedModel s4 = ms2 \<and> cv_pending s4 = 0
           \<and> cv_scene s4 \<noteq> None"
proof -
  let ?s1 = "handleFileImport (Some a) s"
  from handleFileImport_request [OF assms(3), of a] assms
  have r1: "attached ?s1 = []" "cv_loadedModel ?s1 = []" "cv_pending ?s1 = 1" "cv_scene ?s1 \<noteq> None"
    by simp_all
  let ?s2 = "handleFileImport (Some b) ?s1"
  from handleFileImport_request [OF r1(4), of b] r1
  have r2: "attached ?s2 = []" "cv_loadedModel ?s2 = []" "cv_pending ?s2 = 2" "cv_scene ?s2 \<noteq> None"
    by simp_all
  have run2: "canvas_run s [Change (Some a), Change (Some b)] = Some ?s2"
    by (simp add: canvas_step_def)
  with r2 show "\<exists>s2. canvas_run s [Change (Some a), Change (Some b)] = Some s2 \<and> cv_pending s2 = 2"
    by blast
  let ?s3 = "handleFileImport_done (Imported ms1) (?s2 \<lparr> cv_pending := cv_pending ?s2 - 1 \<rparr>)"
  have r3: "attached ?s3 = ms1" "cv_pending ?s3 = 1" "cv_scene ?s3 \<noteq> None"
    using handleFileImport_done_attached [OF r2(4), of ms1 "cv_pending ?s2 - 1"] r2 by simp_all
  let ?s4 = "handleFileImport_done (Imported ms2) (?s3 \<lparr> cv_pending := cv_pending ?s3 - 1 \<rparr>)"
  have r4: "attached ?s4 = ms1 @ ms2" "cv_loadedModel ?s4 = ms2" "cv_pending ?s4 = 0" "cv_scene ?s4 \<noteq> None"
    using handleFileImport_done_attached [OF r3(3), of ms2 "cv_pending ?s3 - 1"] r3 by simp_all
  have "canvas_run s [Change (Some a), Change (Some b), Done (Imported ms1), Done (Imported ms2)]
          = Some ?s4"
    using r2 r3 by (simp add: canvas_step_def)
  with r4 show "\<exists>s4. canvas_run s [Change (Some a), Change (Some b), Done (Imported ms1), Done (Imported ms2)]
                 = Some s4
           \<and> attached s4 = ms1 @ ms2 \<and> cv_loadedModel s4 = ms2 \<and> cv_pending s4 = 0
           \<and> cv_scene s4 \<noteq> None"
    by blast
qed

lemma disposeBabylon_inv: "upload_inv u \<Longrightarrow> upload_inv (disposeBabylon u)"
  by (cases "up_engine u") (auto simp: upload_inv_def disposeBabylon_def up_attached_def Let_def)

lemma disposeBabylon_scene: "upload_inv u \<Longrightarrow> up_scene (disposeBabylon u) = None"
  by (cases "up_engine u") (auto simp: upload_inv_def disposeBabylon_def Let_def)

lemma initializeBabylon_failed_inv:
  assumes "upload_inv u" and "up_pending u = []" and "up_babylonCanvas u"
    and "k \<noteq> Created" and "\<not> camera_throws k"
  shows "upload_inv (initializeBabylon k u)"
proof -
  have d: "up_scene (disposeBabylon u) = None" "up_pending (disposeBabylon u) = []"
    by (simp_all add: disposeBabylon_scene [OF assms(1)] disposeBabylon_fields assms(2))
  show ?thesis
    using assms(4,5) d
    by (cases k)
       (simp_all add: initializeBabylon_def assms(3) Let_def upload_inv_def up_attached_def
          report_error_def camera_throws_def)
qed

lemma initializeBabylon_created_inv:
  assumes "up_pending u = []" and "up_babylonCanvas u"
  shows "upload_inv (initializeBabylon Created u)"
proof -
  define s3 where "s3 = (disposeBabylon u)
                   \<lparr> up_isLoading := True, up_errorLoading := None, up_hasModel := False,
                     up_engine := True, up_scene := Some [], up_camera := Some upload_camera,
                     up_renderLoop := True, up_resize_listener := True \<rparr>"
  have f: "up_pending s3 = []" "\<not> up_hasModel s3" "up_scene s3 = Some []"
    "up_camera s3 = Some upload_camera" "up_engine s3" "up_isLoading s3"
    by (simp_all add: s3_def disposeBabylon_fields assms(1))
  have eq: "initializeBabylon Created u =
        (if up_modelUrl s3 \<noteq> []
           then (let s4 = loadModel (up_modelUrl s3) s3
                 in if up_pending s4 = up_pending s3 then s4 \<lparr> up_isLoading := False \<rparr> else s4)
           else s3 \<lparr> up_isLoading := False \<rparr>)"
    by (simp add: initializeBabylon_created [OF assms(2)] s3_def Let_def)
  show ?thesis
  proof (cases "up_modelUrl s3 = []")
    case True
    then show ?thesis using f by (simp add: eq upload_inv_def up_attached_def)
  next
    case False
    show ?thesis
    proof (cases "prefix ''blob:'' (up_modelUrl s3)")
      case True
      then show ?thesis
        using f False by (simp add: eq loadModel_def Let_def upload_inv_def up_attached_def)
    next
      case b: False
      then show ?thesis
        using f False by (simp add: eq loadModel_def Let_def upload_inv_def up_attached_def)
    qed
  qed
qed

lemma initializeBabylon_inv:
  assumes "upload_inv u" and "up_pending u = []" and "\<not> camera_throws k"
  shows "upload_inv (initializeBabylon k u)"
proof (cases "up_babylonCanvas u")
  case False
  with assms(1) show ?thesis by (simp add: initializeBabylon_no_canvas)
next
  case True
  show ?thesis
  proof (cases "k = Created")
    case True
    with \<open>up_babylonCanvas u\<close> assms(2) show ?thesis by (simp add: initializeBabylon_created_inv)
  next
    case False
    from initializeBabylon_failed_inv [OF assms(1,2) True False assms(3)] show ?thesis .
  qed
qed

lemma modelUrl_update_inv: "upload_inv (u \<lparr> up_modelUrl := url \<rparr>) = upload_inv u"
  by (simp add: upload_inv_def up_attached_def)

lemma watch_modelUrl_inv:
  assumes "upload_inv u" and "up_pending u = []" and "\<not> camera_throws k"
  shows "upload_inv (watch_modelUrl url k u)"
proof -
  have a: "upload_inv (u \<lparr> up_modelUrl := url \<rparr>)" using assms(1) by (simp add: modelUrl_update_inv)
  have b: "up_pending (u \<lparr> up_modelUrl := url \<rparr>) = []" using assms(2) by simp
  from initializeBabylon_inv [OF a b assms(3)] a show ?thesis
    by (simp add: watch_modelUrl_def Let_def)
qed

lemma handleFileSelected_inv:
  assumes "upload_inv u" and "add_model_shown u"
  shows "upload_inv (handleFileSelected files u)"
proof (cases files)
  case None
  with assms(1) show ?thesis by (simp add: handleFileSelected_def)
next
  case (Some fname)
  show ?thesis
  proof (cases "up_scene u")
    case None
    with assms(1) show ?thesis by (simp add: handleFileSelected_no_scene)
  next
    case (Some sc)
    with assms show ?thesis
      by (auto simp: \<open>files = Some fname\<close> handleFileSelected_def upload_inv_def up_attached_def
            add_model_shown_def)
  qed
qed

lemma frameMeshes_boxed: "boxed ms \<Longrightarrow> \<exists>r. frameMeshes ms = Inr r \<and> (r = None \<longleftrightarrow> ms = [])"
proof (cases "ms = []")
  case True
  then show ?thesis by (simp add: frameMeshes_def)
next
  case False
  assume "boxed ms"
  then have "\<forall>m\<in>set ms. getBoundingInfo m \<noteq> None" by (simp add: boxed_def list_all_iff)
  from frameMeshes_union [OF False this] False show ?thesis by simp
qed

lemma frame_camera_boxed:
  "boxed ms \<Longrightarrow> cam \<noteq> None \<Longrightarrow> \<exists>cam'. frame_camera ms cam = Inr cam' \<and> cam' \<noteq> None"
proof -
  assume b: "boxed ms" and c: "cam \<noteq> None"
  from frameMeshes_boxed [OF b] obtain r where r: "frameMeshes ms = Inr r" by blast
  from c obtain c0 where c0: "cam = Some c0" by auto
  show ?thesis by (cases r) (simp_all add: frame_camera_def r c0)
qed

lemma frame_camera_keeps_null:
  "frame_camera ms cam = Inr cam' \<Longrightarrow> (cam' = None) = (cam = None)"
proof (cases "frameMeshes ms")
  case (Inl e)
  assume "frame_camera ms cam = Inr cam'"
  with Inl show ?thesis by (simp add: frame_camera_def)
next
  case (Inr r)
  assume a: "frame_camera ms cam = Inr cam'"
  show ?thesis
  proof (cases r)
    case None
    with a Inr show ?thesis by (simp add: frame_camera_def)
  next
    case (Some f)
    with a Inr show ?thesis by (cases cam) (auto simp: frame_camera_def)
  qed
qed

lemma import_resolved_with_camera:
  assumes "boxed ms" and "up_camera w \<noteq> None"
  shows "up_hasModel (import_settled label (Inr ms) w)"
    and "up_scene (import_settled label (Inr ms) w) = up_scene (attach_meshes ms w)"
    and "up_camera (import_settled label (Inr ms) w) \<noteq> None"
    and "up_engine (import_settled label (Inr ms) w) = up_engine w"
    and "up_pending (import_settled label (Inr ms) w) = up_pending w"
proof -
  let ?a = "attach_meshes ms w"
  have cam: "up_camera ?a \<noteq> None" using assms(2) by (simp add: attach_meshes_fields)
  from frame_camera_boxed [OF assms(1) cam] obtain cam' where
    fc: "frame_camera ms (up_camera ?a) = Inr cam'" and ne: "cam' \<noteq> None" by blast
  have ma: "model_arrived label ms ?a =
      Inr (?a \<lparr> up_camera := cam', up_hasModel := True,
                up_emitted := up_emitted ?a @ [(''model-loaded'', label)] \<rparr>)"
    by (simp add: model_arrived_def fc)
  have eng: "up_engine ?a = up_engine w"
    by (cases "up_scene w") (simp_all add: attach_meshes_def)
  note eq = import_settled_arrived [OF ma]
  show "up_hasModel (import_settled label (Inr ms) w)" by (simp add: eq)
  show "up_scene (import_settled label (Inr ms) w) = up_scene ?a" by (simp add: eq)
  show "up_camera (import_settled label (Inr ms) w) \<noteq> None" using ne by (simp add: eq)
  show "up_engine (import_settled label (Inr ms) w) = up_engine w" by (simp add: eq eng)
  show "up_pending (import_settled label (Inr ms) w) = up_pending w"
    by (simp add: eq attach_meshes_fields)
qed

lemma import_settled_no_scene:
  assumes "up_scene w = None"
  shows "up_scene (import_settled label r w) = None"
    and "up_camera (import_settled label r w) = None \<longleftrightarrow> up_camera w = None"
    and "up_pending (import_settled label r w) = up_pending w"
proof -
  have a: "attach_meshes ms w = w" for ms by (simp add: attach_meshes_def assms)
  show "up_scene (import_settled label r w) = None"
  proof (cases r)
    case (Inl e)
    then show ?thesis by (simp add: import_settled_rejected report_error_fields assms)
  next
    case (Inr ms)
    show ?thesis
    proof (cases "model_arrived label ms w")
      case (Inl e)
      then show ?thesis
        using import_settled_raised [of label ms w e]
        by (simp add: \<open>r = Inr ms\<close> a report_error_fields assms)
    next
      case inr: (Inr w')
      from model_arrived_Inr [OF inr] import_settled_arrived [of label ms w w'] show ?thesis
        by (simp add: \<open>r = Inr ms\<close> a inr assms)
    qed
  qed
  show "up_camera (import_settled label r w) = None \<longleftrightarrow> up_camera w = None"
  proof (cases r)
    case (Inl e)
    then show ?thesis by (simp add: import_settled_rejected report_error_fields)
  next
    case (Inr ms)
    show ?thesis
    proof (cases "frame_camera ms (up_camera w)")
      case (Inl e)
      then have "model_arrived label ms w = Inl e" by (simp add: model_arrived_def)
      with import_settled_raised [of label ms w e] show ?thesis
        by (simp add: \<open>r = Inr ms\<close> a report_error_fields)
    next
      case inr: (Inr cam')
      then have ma: "model_arrived label ms w =
          Inr (w \<lparr> up_camera := cam', up_hasModel := True,
                   up_emitted := up_emitted w @ [(''model-loaded'', label)] \<rparr>)"
        by (simp add: model_arrived_def)
      have "cam' = None \<longleftrightarrow> up_camera w = None"
        by (rule frame_camera_keeps_null [OF inr])
      with import_settled_arrived [of label ms w, OF _] ma show ?thesis
        by (simp add: \<open>r = Inr ms\<close> a)
    qed
  qed
  show "up_pending (import_settled label r w) = up_pending w"
  proof (cases r)
    case (Inl e)
    then show ?thesis by (simp add: import_settled_rejected report_error_fields)
  next
    case (Inr ms)
    show ?thesis
    proof (cases "model_arrived label ms w")
      case (Inl e)
      then show ?thesis
        using import_settled_raised [of label ms w e]
        by (simp add: \<open>r = Inr ms\<close> a report_error_fields)
    next
      case inr: (Inr w')
      from model_arrived_Inr [OF inr] import_settled_arrived [of label ms w w'] show ?thesis
        by (simp add: \<open>r = Inr ms\<close> a inr)
    qed
  qed
qed

lemma upload_inv_report:
  "upload_inv w \<Longrightarrow> up_pending w = [] \<Longrightarrow> upload_inv ((report_error e w) \<lparr> up_isLoading := False \<rparr>)"
  by (simp add: upload_inv_def up_attached_def report_error_def)

lemma upload_inv_message:
  "upload_inv w \<Longrightarrow> up_pending w = [] \<Longrightarrow>
     upload_inv (w \<lparr> up_errorLoading := m, up_isLoading := False \<rparr>)"
  by (simp add: upload_inv_def up_attached_def)

lemma upload_inv_resolved:
  assumes "upload_inv w" and "up_pending w = []" and "boxed ms"
  shows "upload_inv (import_settled label (Inr ms) w)"
proof (cases "up_scene w")
  case None
  from import_settled_no_scene [OF None, of label "Inr ms"] assms(2) show ?thesis
    by (simp add: upload_inv_def up_attached_def)
next
  case (Some sc)
  with assms(1) have cam: "up_camera w \<noteq> None" and eng: "up_engine w"
    by (simp_all add: upload_inv_def)
  from import_resolved_with_camera [OF assms(3) cam, of label] eng assms(2) show ?thesis
    by (simp add: upload_inv_def)
qed

lemma import_settled_inv:
  assumes "upload_inv w" and "up_pending w = []"
    and "case r of Inl _ \<Rightarrow> True | Inr ms \<Rightarrow> boxed ms"
  shows "upload_inv (import_settled label r w)"
proof (cases r)
  case (Inl e)
  with upload_inv_report [OF assms(1,2)] show ?thesis by (simp add: import_settled_rejected)
next
  case (Inr ms)
  with assms(3) have "boxed ms" by simp
  from upload_inv_resolved [OF assms(1,2) this] Inr show ?thesis by simp
qed

lemma upload_finish_inv:
  assumes "upload_inv w" and "up_pending w = []"
    and "upload_finish call out w = Some u'"
    and "case out of ImportResolved ms \<Rightarrow> boxed ms | _ \<Rightarrow> True"
  shows "upload_inv u'"
proof (cases out)
  case ReaderFailed
  with assms(3) have "u' = w \<lparr> up_errorLoading := Some ''Error: Failed to read the file'',
                              up_isLoading := False \<rparr>"
    by (cases call) (simp_all add: upload_finish_def handleFileSelected_done_def)
  with upload_inv_message [OF assms(1,2)] show ?thesis by simp
next
  case EmptyResult
  with assms(3) have "u' = w \<lparr> up_errorLoading := Some ''Error: Could not read file'',
                              up_isLoading := False \<rparr>"
    by (cases call) (simp_all add: upload_finish_def handleFileSelected_done_def)
  with upload_inv_message [OF assms(1,2)] show ?thesis by simp
next
  case (ImportRejected e)
  with assms(3) have "\<exists>label. u' = import_settled label (Inl e) w"
    by (cases call) (auto simp: upload_finish_def handleFileSelected_done_def)
  then obtain label where "u' = import_settled label (Inl e) w" ..
  with import_settled_inv [OF assms(1,2), of "Inl e"] show ?thesis by simp
next
  case (ImportResolved ms)
  with assms(4) have b: "boxed ms" by simp
  from ImportResolved assms(3) have "\<exists>label. u' = import_settled label (Inr ms) w"
    by (cases call) (auto simp: upload_finish_def handleFileSelected_done_def)
  then obtain label where "u' = import_settled label (Inr ms) w" ..
  with import_settled_inv [OF assms(1,2), of "Inr ms"] b show ?thesis by simp
qed

lemma upload_inv_pending_reset:
  "upload_inv u \<Longrightarrow> upload_inv (u \<lparr> up_pending := [] \<rparr>)"
  by (simp add: upload_inv_def up_attached_def)

lemma upload_step_inv:
  assumes "upload_inv u" and "calm u ev" and "upload_step u ev = Some u'"
  shows "upload_inv u'"
proof (cases ev)
  case (Mounted k)
  with assms(2,3) have "up_pending u = []" "\<not> camera_throws k" "u' = initializeBabylon k u"
    by (simp_all add: calm_def upload_step_def)
  with initializeBabylon_inv [OF assms(1)] show ?thesis by simp
next
  case (UrlChanged url k)
  with assms(2,3) have "up_pending u = []" "\<not> camera_throws k" "u' = watch_modelUrl url k u"
    by (simp_all add: calm_def upload_step_def)
  with watch_modelUrl_inv [OF assms(1)] show ?thesis by simp
next
  case (FileSelected files)
  with assms(3) have "add_model_shown u" "u' = handleFileSelected files u"
    by (simp_all add: upload_step_def split: if_splits)
  with handleFileSelected_inv [OF assms(1)] show ?thesis by simp
next
  case (Finished out)
  with assms(3) obtain call rest where
    p: "up_pending u = call # rest"
    and f: "upload_finish call out (u \<lparr> up_pending := rest \<rparr>) = Some u'"
    by (auto simp: upload_step_def split: list.splits)
  from p assms(1) have rest: "rest = []" by (auto simp: upload_inv_def)
  from Finished assms(2) have c: "case out of ImportResolved ms \<Rightarrow> boxed ms | _ \<Rightarrow> True"
    by (simp add: calm_def)
  from upload_finish_inv [OF upload_inv_pending_reset [OF assms(1)] _ f [unfolded rest] c]
  show ?thesis by simp
next
  case Unmounted
  with assms(3) have "u' = disposeBabylon u" by (simp add: upload_step_def)
  with disposeBabylon_inv [OF assms(1)] show ?thesis by simp
qed

lemma upload_run_inv:
  "upload_inv u \<Longrightarrow> orderly u evs \<Longrightarrow> upload_run u evs = Some u' \<Longrightarrow> upload_inv u'"
proof (induction evs arbitrary: u)
  case Nil
  then show ?case by simp
next
  case (Cons ev evs)
  from Cons.prems(3) obtain u1 where
    a: "upload_step u ev = Some u1" and b: "upload_run u1 evs = Some u'"
    by (auto split: option.splits)
  from Cons.prems(2) a have c: "calm u ev" and d: "orderly u1 evs" by simp_all
  from upload_step_inv [OF Cons.prems(1) c a] d b show ?case by (rule Cons.IH)
qed

lemma upload_inv_initial: "upload_inv (upload_initial url)"
  by (simp add: upload_inv_def upload_initial_def up_attached_def)

lemma upload_inv_gate:
  "upload_inv u \<Longrightarrow> up_attached u \<noteq> [] \<Longrightarrow>
     up_hasModel u \<and> upload_step u (FileSelected files) = None"
  by (auto simp: upload_inv_def upload_step_def add_model_shown_def)

lemma up_attached_resolved:
  assumes "boxed ms" and "up_camera w \<noteq> None" and "up_scene w = Some []"
  shows "up_attached (import_settled label (Inr ms) w) = ms"
    and "up_hasModel (import_settled label (Inr ms) w)"
  using import_resolved_with_camera [OF assms(1,2), of label] assms(3)
  by (simp_all add: up_attached_def attach_meshes_def)

lemma init_then_resolved:
  assumes "up_pending u = []" and "boxed ms"
    and "upload_step (initializeBabylon k u) (Finished (ImportResolved ms)) = Some u'"
  shows "up_attached u' = ms \<and> up_hasModel u'"
proof -
  let ?u1 = "initializeBabylon k u"
  from assms(3) have ne: "up_pending ?u1 \<noteq> []" by (auto simp: upload_step_def)
  with initializeBabylon_pending [of k u] assms(1)
  have p: "up_pending ?u1 = [UrlImport (up_modelUrl u)]"
    and sc: "up_scene ?u1 = Some []" and cam: "up_camera ?u1 = Some upload_camera"
    by auto
  let ?w = "?u1 \<lparr> up_pending := [] \<rparr>"
  from assms(3) p have u': "u' = import_settled (up_modelUrl u) (Inr ms) ?w"
    by (simp add: upload_step_def upload_finish_def)
  have w: "up_camera ?w \<noteq> None" "up_scene ?w = Some []" using sc cam by simp_all
  from up_attached_resolved [OF assms(2) w] show ?thesis by (simp add: u')
qed

lemma url_replace:
  assumes "up_pending u = []" and "boxed ms"
    and "upload_run u [UrlChanged url k, Finished (ImportResolved ms)] = Some u'"
  shows "up_attached u' = ms \<and> up_hasModel u'"
proof -
  from assms(3) [unfolded upload_run_two] obtain u1 where
    s1: "upload_step u (UrlChanged url k) = Some u1" and
    s2: "upload_step u1 (Finished (ImportResolved ms)) = Some u'"
    by blast
  from s1 have u1: "u1 = watch_modelUrl url k u" by (simp add: upload_step_def)
  from s2 have ne: "up_pending u1 \<noteq> []" by (auto simp: upload_step_def)
  let ?u0 = "u \<lparr> up_modelUrl := url \<rparr>"
  have p0: "up_pending ?u0 = []" using assms(1) by simp
  from ne u1 assms(1) have "u1 = initializeBabylon k ?u0"
    by (auto simp: watch_modelUrl_def Let_def split: if_splits)
  with s2 init_then_resolved [OF p0 assms(2), of k u'] show ?thesis by simp
qed

lemma mount_replace:
  assumes "up_pending u = []" and "boxed ms"
    and "upload_run u [Mounted k, Finished (ImportResolved ms)] = Some u'"
  shows "up_attached u' = ms \<and> up_hasModel u'"
proof -
  from assms(3) [unfolded upload_run_two] obtain u1 where
    s1: "upload_step u (Mounted k) = Some u1" and
    s2: "upload_step u1 (Finished (ImportResolved ms)) = Some u'"
    by blast
  from s1 have "u1 = initializeBabylon k u" by (simp add: upload_step_def)
  with s2 init_then_resolved [OF assms(1,2), of k u'] show ?thesis by simp
qed

lemma file_replace:
  assumes "upload_inv u" and "boxed ms"
    and "upload_run u [FileSelected (Some fname), Finished (ImportResolved ms)] = Some u'"
  shows "up_attached u' = ms \<and> up_hasModel u'"
proof -
  from assms(3) [unfolded upload_run_two] obtain u1 where
    s1: "upload_step u (FileSelected (Some fname)) = Some u1" and
    s2: "upload_step u1 (Finished (ImportResolved ms)) = Some u'"
    by blast
  from s1 have g: "add_model_shown u" and u1: "u1 = handleFileSelected (Some fname) u"
    by (simp_all add: upload_step_def split: if_splits)
  from g assms(1) have p: "up_pending u = []" and h: "\<not> up_hasModel u"
    by (auto simp: add_model_shown_def upload_inv_def)
  from s2 have ne: "up_pending u1 \<noteq> []" by (auto simp: upload_step_def)
  have sc: "up_scene u \<noteq> None"
  proof
    assume "up_scene u = None"
    then have "u1 = u" by (simp add: u1 handleFileSelected_no_scene)
    with ne p show False by simp
  qed
  with assms(1) h have empty: "up_scene u = Some []" and cam: "up_camera u \<noteq> None"
    by (auto simp: upload_inv_def up_attached_def)
  let ?w = "u \<lparr> up_isLoading := True, up_errorLoading := None, up_pending := [] \<rparr>"
  from file_load_cycle(2) [OF p assms(3)]
  have u': "u' = import_settled fname (Inr ms) ?w"
    by (simp add: handleFileSelected_done_def)
  have w: "up_camera ?w \<noteq> None" "up_scene ?w = Some []" using empty cam by simp_all
  from up_attached_resolved [OF assms(2) w] show ?thesis by (simp add: u')
qed

lemma canvas_inv_initScene: "canvas_inv (initScene canvas_initial)"
  by (simp add: canvas_inv_def initScene_def canvas_initial_def attached_def)

subsection \<open>Concrete runs\<close>

lemma canvas_run_append:
  "canvas_run s (xs @ ys) = (case canvas_run s xs of None \<Rightarrow> None | Some s' \<Rightarrow> canvas_run s' ys)"
  by (induction xs arbitrary: s) (simp_all split: option.splits)

lemma initScene_fields:
  "attached (initScene canvas_initial) = []" "cv_loadedModel (initScene canvas_initial) = []"
  "cv_scene (initScene canvas_initial) \<noteq> None" "cv_pending (initScene canvas_initial) = 0"
  by (simp_all add: initScene_def canvas_initial_def attached_def)

lemma viewer_inv_initial: "viewer_inv viewer_initial"
  by (simp add: viewer_inv_def viewer_initial_def)

lemma loading_viewer_run:
  "viewer_run viewer_initial
     [ViewerReady (Some \<lparr> has_loadModel = True, has_dispose = True \<rparr>), InputChange (Some ''a.glb'')]
     = Some loading_viewer"
  by (simp add: viewer_step_def file_input_disabled_def handleFileChange_def loadModelIntoViewer_def
        onViewerReady_def viewer_initial_def loading_viewer_def ready_viewer_def)

lemma example_nodes_second_disposed:
  "dispose_mesh (example_nodes ! 1) [example_nodes ! 0, example_nodes ! 1] = [example_nodes ! 0]"
  by (simp add: dispose_mesh_def dispose_jobs.simps removeMesh_def instances_of_def
        children_of_def example_nodes_def node_def)

lemma two_loads_one_at_a_time: "one_at_a_time (initScene canvas_initial) two_loads"
  by (simp add: two_loads_def canvas_step_def handleFileImport_def handleFileImport_done_def
        onSuccess_def attach_def initScene_def canvas_initial_def Let_def dispose_all_def
        dispose_mesh_def dispose_jobs.simps removeMesh_def instances_of_def
        children_of_def)

lemma two_loads_run:
  "\<exists>c. canvas_run (initScene canvas_initial) two_loads = Some c
       \<and> cv_loadedModel c = [example_nodes ! 1]"
  by (simp add: two_loads_def canvas_step_def handleFileImport_def handleFileImport_done_def
        onSuccess_def attach_def initScene_def canvas_initial_def Let_def dispose_all_def
        dispose_mesh_def dispose_jobs.simps removeMesh_def instances_of_def
        children_of_def)

lemma example_boxed_all: "boxed example_nodes"
  by (simp add: boxed_def example_nodes_def node_def)

lemma ready_upload_inv: "upload_inv ready_upload"
proof -
  have "up_pending (upload_initial []) = []" by (simp add: upload_initial_def)
  moreover have "\<not> camera_throws Created" by (simp add: camera_throws_def)
  ultimately show ?thesis
    unfolding ready_upload_def by (rule initializeBabylon_inv [OF upload_inv_initial])
qed

lemma ready_upload_file_run:
  "\<exists>u'. upload_run ready_upload [FileSelected (Some ''a.glb''), Finished (ImportResolved example_nodes)]
          = Some u'"
  by (simp add: upload_step_def add_model_shown_def handleFileSelected_def ready_upload_fields
        upload_finish_def)

section \<open>The claims about framing\<close>

text \<open>
  C1. For a non-empty sequence of nodes with known bounding boxes the centre of the framing
  is the midpoint of the union box, in any order of the nodes. The file-upload component
  (\<open>frameMeshes_center\<close>, \<open>frameMeshes_mset\<close>) and the standalone page
  (\<open>calculateBoundingInfo_center\<close>, \<open>calculateBoundingInfo_mset\<close>) do so. The canvas
  component starts its running maximum at \<open>Number.MIN_VALUE\<close>, the smallest positive
  number, so for a model that lies in the negative octant the maximum it reaches is
  \<open>MIN_VALUE\<close> in every axis, not the maximum of the boxes, and the centre it computes is
  not the midpoint: for one node with the box from \<open>(-3,-3,-3)\<close> to \<open>(-1,-1,-1)\<close> the
  midpoint is \<open>(-2,-2,-2)\<close> and the computed centre is \<open>(MIN_VALUE - 3) / 2\<close> in every
  axis.
\<close>

theorem centerModel_negative_octant:
  "fr_center (centerModel [sunken_node])
     = Vector3 ((MIN_VALUE - 3) / 2) ((MIN_VALUE - 3) / 2) ((MIN_VALUE - 3) / 2)
   \<and> midpoint_of (union_min (boxes [sunken_node])) (union_max (boxes [sunken_node]))
     = Vector3 (-2) (-2) (-2)
   \<and> fr_center (centerModel [sunken_node])
     \<noteq> midpoint_of (union_min (boxes [sunken_node])) (union_max (boxes [sunken_node]))
   \<and> fr_max (centerModel [sunken_node]) = Vector3 MIN_VALUE MIN_VALUE MIN_VALUE
   \<and> union_max (boxes [sunken_node]) = Vector3 (-1) (-1) (-1)"
proof -
  have a: "min MAX_VALUE (-3) = -3" using MAX_VALUE_big by simp
  have b: "max MIN_VALUE (-1) = MIN_VALUE" using MIN_VALUE_pos by simp
  have c: "centerModel [sunken_node] =
      frame_of 2 (Vector3 (-3) (-3) (-3), Vector3 MIN_VALUE MIN_VALUE MIN_VALUE)"
    by (simp add: centerModel_def sunken_node_def node_def visit_mesh_def
        Minimize_def Maximize_def a b)
  have d: "boxes [sunken_node] =
      [\<lparr> minimumWorld = Vector3 (-3) (-3) (-3), maximumWorld = Vector3 (-1) (-1) (-1) \<rparr>]"
    by (simp add: sunken_node_def node_def boxes_Cons boxes_Nil)
  have e: "(MIN_VALUE - 3) / 2 \<noteq> - 2" using MIN_VALUE_pos by simp
  show ?thesis
    using e by (simp add: c d frame_of_def Let_def Center_def union_min_def union_max_def midpoint_of_def)
qed

text \<open>
  C3. For an empty sequence of nodes, or one in which no node passes the test of the loop
  (a bounding box, visible, not named after the ground or the skybox), the page's
  calculateBoundingInfo returns the fixed default: the origin as centre and the radius 5,
  every component a finite number.
\<close>

theorem calculateBoundingInfo_default:
  "(\<forall>m\<in>set ms. \<not> counted m) \<Longrightarrow>
     calculateBoundingInfo ms = \<lparr> center = Vector3 (Finite 0) (Finite 0) (Finite 0), radius = Finite 5 \<rparr>
     \<and> is_finite (x_of (center (calculateBoundingInfo ms)))
     \<and> is_finite (y_of (center (calculateBoundingInfo ms)))
     \<and> is_finite (z_of (center (calculateBoundingInfo ms)))
     \<and> is_finite (radius (calculateBoundingInfo ms))"
proof -
  assume "\<forall>m\<in>set ms. \<not> counted m"
  then have "filter counted ms = []" by (simp add: filter_empty_conv)
  then have "calculateBoundingInfo ms = default_result" by (rule calculateBoundingInfo_none)
  then show ?thesis by (simp add: default_result_def is_finite_def)
qed

lemma page_scene_uncounted:
  "list_all (\<lambda>m. \<not> counted m) [page_scene ! 0, page_scene ! 1, page_scene ! 3]"
  by (simp add: page_scene_def node_def counted_def js_includes_def sublist_code)

theorem calculateBoundingInfo_default_witness:
  "calculateBoundingInfo [] = \<lparr> center = Vector3 (Finite 0) (Finite 0) (Finite 0), radius = Finite 5 \<rparr>
   \<and> calculateBoundingInfo [page_scene ! 0, page_scene ! 1, page_scene ! 3]
        = \<lparr> center = Vector3 (Finite 0) (Finite 0) (Finite 0), radius = Finite 5 \<rparr>"
  using calculateBoundingInfo_default [of "[]"]
    calculateBoundingInfo_default [of "[page_scene ! 0, page_scene ! 1, page_scene ! 3]"]
    page_scene_uncounted
  by simp

text \<open>
  C7. For a non-empty sequence of nodes the extent is the union maximum minus the union
  minimum and the scalar is derived from its largest axis: the file-upload component takes
  the largest axis as \<open>size\<close> and one and a half times it as the radius, the standalone
  page returns half the largest axis. For the two nodes of the example the union box runs
  from \<open>(-1,-1,-1)\<close> to \<open>(2,2,2)\<close>, its midpoint is \<open>(0.5,0.5,0.5)\<close> and its largest
  axis is 3; both components compute exactly these values.
\<close>

theorem framing_extent_and_radius:
  "(ms \<noteq> [] \<and> (\<forall>m\<in>set ms. getBoundingInfo m \<noteq> None) \<longrightarrow>
      (\<exists>f. frameMeshes ms = Inr (Some f)
         \<and> fr_extents f = extent_of (union_min (boxes ms)) (union_max (boxes ms))
         \<and> fr_size f = max_axis (fr_extents f)
         \<and> fr_radius f = fr_size f * 1.5))
   \<and> (ms \<noteq> [] \<and> (\<forall>m\<in>set ms. counted m) \<and> (\<forall>bb\<in>set (boxes ms). well_formed bb) \<longrightarrow>
        radius (calculateBoundingInfo ms) =
          Finite (max_axis (extent_of (union_min (boxes ms)) (union_max (boxes ms))) / 2))
   \<and> union_min (boxes example_nodes) = Vector3 (-1) (-1) (-1)
   \<and> union_max (boxes example_nodes) = Vector3 2 2 2
   \<and> midpoint_of (union_min (boxes example_nodes)) (union_max (boxes example_nodes))
        = Vector3 (1/2) (1/2) (1/2)
   \<and> max_axis (extent_of (union_min (boxes example_nodes)) (union_max (boxes example_nodes))) = 3
   \<and> frameMeshes example_nodes =
        Inr (Some \<lparr> fr_min = Vector3 (-1) (-1) (-1), fr_max = Vector3 2 2 2,
                    fr_center = Vector3 (1/2) (1/2) (1/2), fr_extents = Vector3 3 3 3,
                    fr_size = 3, fr_radius = 9/2 \<rparr>)
   \<and> calculateBoundingInfo example_nodes =
        \<lparr> center = Vector3 (Finite (1/2)) (Finite (1/2)) (Finite (1/2)), radius = Finite (3/2) \<rparr>"
proof (intro conjI impI)
  assume a: "ms \<noteq> [] \<and> (\<forall>m\<in>set ms. getBoundingInfo m \<noteq> None)"
  then have ne: "ms \<noteq> []" and all: "\<forall>m\<in>set ms. getBoundingInfo m \<noteq> None" by simp_all
  show "\<exists>f. frameMeshes ms = Inr (Some f)
         \<and> fr_extents f = extent_of (union_min (boxes ms)) (union_max (boxes ms))
         \<and> fr_size f = max_axis (fr_extents f)
         \<and> fr_radius f = fr_size f * 1.5"
    by (simp add: frameMeshes_union [OF ne all] frame_of_def Let_def subtract_def extent_of_def)
next
  assume a: "ms \<noteq> [] \<and> (\<forall>m\<in>set ms. counted m) \<and> (\<forall>bb\<in>set (boxes ms). well_formed bb)"
  then show "radius (calculateBoundingInfo ms) =
          Finite (max_axis (extent_of (union_min (boxes ms)) (union_max (boxes ms))) / 2)"
    by (intro calculateBoundingInfo_radius) simp_all
next
  show "midpoint_of (union_min (boxes example_nodes)) (union_max (boxes example_nodes))
        = Vector3 (1/2) (1/2) (1/2)"
    by (simp add: example_union midpoint_of_def)
  show "max_axis (extent_of (union_min (boxes example_nodes)) (union_max (boxes example_nodes))) = 3"
    by (simp add: example_union extent_of_def max_axis_def)
qed (rule example_union example_frameMeshes example_calculateBoundingInfo)+

lemma example_well_formed: "list_all well_formed (boxes example_nodes)"
  by (simp add: example_boxes well_formed_def)

lemma example_boxed: "list_all (\<lambda>m. getBoundingInfo m \<noteq> None) example_nodes"
  by (simp add: example_nodes_def node_def)

theorem framing_extent_and_radius_witness:
  "example_nodes \<noteq> [] \<and> list_all (\<lambda>m. getBoundingInfo m \<noteq> None) example_nodes
   \<and> list_all counted example_nodes \<and> list_all well_formed (boxes example_nodes)
   \<and> (\<exists>f. frameMeshes example_nodes = Inr (Some f)
         \<and> fr_extents f = Vector3 3 3 3 \<and> fr_size f = 3 \<and> fr_radius f = 3 * 1.5)
   \<and> radius (calculateBoundingInfo example_nodes) = Finite (3 / 2)"
proof -
  have ne: "example_nodes \<noteq> []" by (simp add: example_nodes_def)
  have b: "\<forall>m\<in>set example_nodes. getBoundingInfo m \<noteq> None"
    using example_boxed by (simp add: list_all_iff)
  have c: "\<forall>m\<in>set example_nodes. counted m"
    using example_counted by (simp add: list_all_iff)
  have w: "\<forall>bb\<in>set (boxes example_nodes). well_formed bb"
    using example_well_formed by (simp add: list_all_iff)
  from framing_extent_and_radius [of example_nodes] ne b c w
  have "\<exists>f. frameMeshes example_nodes = Inr (Some f)
         \<and> fr_extents f = extent_of (union_min (boxes example_nodes)) (union_max (boxes example_nodes))
         \<and> fr_size f = max_axis (fr_extents f)
         \<and> fr_radius f = fr_size f * 1.5"
    and "radius (calculateBoundingInfo example_nodes) =
          Finite (max_axis (extent_of (union_min (boxes example_nodes)) (union_max (boxes example_nodes))) / 2)"
    by blast+
  then show ?thesis
    using ne example_boxed example_counted example_well_formed
    by (auto simp: example_union extent_of_def max_axis_def)
qed




lemma loaded_page_cleared:
  "clearModels (Some loaded_page) = Some [loaded_page ! 0, loaded_page ! 1]"
  by (simp add: clearModels_def clearModels_visit_def dispose_mesh_def dispose_jobs.simps
        removeMesh_def instances_of_def children_of_def loaded_page_def node_def js_includes_def sublist_code)

text \<open>
  The engine does not keep the order of the scene's list: with the model mesh in front, the
  two environment meshes change places.
\<close>

lemma clearModels_reorders:
  "clearModels (Some [page_scene ! 2, page_scene ! 1, page_scene ! 0])
     = Some [page_scene ! 0, page_scene ! 1]"
  by (simp add: clearModels_def clearModels_visit_def dispose_mesh_def dispose_jobs.simps
        removeMesh_def instances_of_def children_of_def page_scene_def node_def js_includes_def sublist_code)




section \<open>The claims about loading and teardown\<close>

text \<open>
  C8. A load or clear request that arrives before the component is ready does nothing to
  the viewer or the scene. In the viewer-element component, while the viewer is not ready
  or there is no instance, loadModelIntoViewer only sets the message that the viewer is not
  ready and starts no call, and clearModel changes nothing. In the canvas component, while
  there is no scene, handleFileImport changes nothing; the file-upload component behaves
  the same way.
\<close>

theorem not_ready_requests_return_early:
  "(\<not> vw_isViewerReady v \<or> vw_viewerInstance v = None \<longrightarrow>
      loadModelIntoViewer file v = v \<lparr> vw_loadError := Some ''Viewer not ready. Cannot load model.'' \<rparr>
      \<and> vw_pending (loadModelIntoViewer file v) = vw_pending v
      \<and> clearModel v = v)
   \<and> (cv_scene c = None \<longrightarrow> handleFileImport files c = c)
   \<and> (up_scene u = None \<longrightarrow> handleFileSelected files u = u \<and> loadModel url u = u)"
proof (intro conjI impI)
  assume a: "\<not> vw_isViewerReady v \<or> vw_viewerInstance v = None"
  show "loadModelIntoViewer file v = v \<lparr> vw_loadError := Some ''Viewer not ready. Cannot load model.'' \<rparr>"
    by (rule loadModelIntoViewer_not_ready [OF a])
  show "vw_pending (loadModelIntoViewer file v) = vw_pending v"
    by (simp add: loadModelIntoViewer_not_ready [OF a])
  show "clearModel v = v"
    by (rule clearModel_not_ready [OF a])
next
  assume "cv_scene c = None"
  then show "handleFileImport files c = c" by (rule handleFileImport_no_scene)
next
  assume a: "up_scene u = None"
  show "handleFileSelected files u = u" by (rule handleFileSelected_no_scene [OF a])
  show "loadModel url u = u" by (rule loadModel_no_scene [OF a])
qed

theorem not_ready_requests_return_early_witness:
  "\<not> vw_isViewerReady viewer_initial
   \<and> loadModelIntoViewer ''a.glb'' viewer_initial
       = viewer_initial \<lparr> vw_loadError := Some ''Viewer not ready. Cannot load model.'' \<rparr>
   \<and> vw_pending (loadModelIntoViewer ''a.glb'' viewer_initial) = []
   \<and> clearModel viewer_initial = viewer_initial
   \<and> cv_scene canvas_initial = None
   \<and> handleFileImport (Some ''a.glb'') canvas_initial = canvas_initial
   \<and> up_scene (upload_initial []) = None
   \<and> handleFileSelected (Some ''a.glb'') (upload_initial []) = upload_initial []"
proof -
  have a: "\<not> vw_isViewerReady viewer_initial" "vw_pending viewer_initial = []"
    by (simp_all add: viewer_initial_def)
  have b: "cv_scene canvas_initial = None" by (simp add: canvas_initial_def)
  have c: "up_scene (upload_initial []) = None" by (simp add: upload_initial_def)
  from not_ready_requests_return_early [of viewer_initial "''a.glb''" canvas_initial
      "Some ''a.glb''" "upload_initial []" "[]"] a b c
  show ?thesis by simp
qed

text \<open>
  C9. Teardown is idempotent and safe when initialisation did not get far: disposeBabylon
  of the file-upload component and onBeforeUnmount of the canvas component, run twice,
  leave the state that one run leaves; with no engine (and, in the canvas component, no
  scene) they touch no handle and only take the listeners off; and after initialisation
  has stopped at any constructor, disposeBabylon leaves no engine, scene or camera behind.
\<close>

theorem teardown_idempotent:
  "disposeBabylon (disposeBabylon u) = disposeBabylon u
   \<and> canvas_onBeforeUnmount (canvas_onBeforeUnmount c) = canvas_onBeforeUnmount c
   \<and> (\<not> up_engine u \<longrightarrow> disposeBabylon u = u \<lparr> up_resize_listener := False \<rparr>)
   \<and> (cv_engine c = None \<and> cv_scene c = None \<longrightarrow>
        canvas_onBeforeUnmount c =
          c \<lparr> cv_scroll_listeners := cv_scroll_listeners c \<and> \<not> cv_canvasRef c,
              cv_resize_listener := cv_resize_listener c \<and> \<not> cv_resizeHandler c \<rparr>)
   \<and> \<not> up_engine (disposeBabylon (initializeBabylon k u))
   \<and> (up_engine u \<longrightarrow> up_scene (disposeBabylon u) = None \<and> up_camera (disposeBabylon u) = None)"
proof (intro conjI impI)
  show "disposeBabylon (disposeBabylon u) = disposeBabylon u"
    by (rule disposeBabylon_twice)
  show "canvas_onBeforeUnmount (canvas_onBeforeUnmount c) = canvas_onBeforeUnmount c"
    by (simp only: canvas_onBeforeUnmount_closed torn_down_twice)
  show "\<not> up_engine (disposeBabylon (initializeBabylon k u))"
    by (rule disposeBabylon_handles)
next
  assume "\<not> up_engine u"
  then show "disposeBabylon u = u \<lparr> up_resize_listener := False \<rparr>"
    by (rule disposeBabylon_null)
next
  assume "cv_engine c = None \<and> cv_scene c = None"
  then show "canvas_onBeforeUnmount c =
          c \<lparr> cv_scroll_listeners := cv_scroll_listeners c \<and> \<not> cv_canvasRef c,
              cv_resize_listener := cv_resize_listener c \<and> \<not> cv_resizeHandler c \<rparr>"
    by (simp only: canvas_onBeforeUnmount_closed torn_down_null)
next
  assume a: "up_engine u"
  show "up_scene (disposeBabylon u) = None" by (rule disposeBabylon_handles(2) [OF a])
  show "up_camera (disposeBabylon u) = None" by (rule disposeBabylon_handles(3) [OF a])
qed

theorem teardown_idempotent_witness:
  "\<not> up_engine (upload_initial [])
   \<and> disposeBabylon (upload_initial []) = upload_initial []
   \<and> cv_engine canvas_initial = None \<and> cv_scene canvas_initial = None
   \<and> canvas_onBeforeUnmount canvas_initial = canvas_initial
   \<and> up_engine (initializeBabylon (CameraThrows (Error ''lost context'')) (upload_initial []))
   \<and> up_scene (disposeBabylon (initializeBabylon (CameraThrows (Error ''lost context'')) (upload_initial []))) = None"
proof -
  have a: "\<not> up_engine (upload_initial [])" by (simp add: upload_initial_def)
  have b: "cv_engine canvas_initial = None" "cv_scene canvas_initial = None"
    by (simp_all add: canvas_initial_def)
  have c: "up_engine (initializeBabylon (CameraThrows (Error ''lost context'')) (upload_initial []))"
    by (simp add: initializeBabylon_def upload_initial_def disposeBabylon_def report_error_def Let_def)
  from teardown_idempotent [of "upload_initial []" canvas_initial] a b
  have "disposeBabylon (upload_initial []) = upload_initial []"
    "canvas_onBeforeUnmount canvas_initial = canvas_initial"
    by (simp_all add: upload_initial_def canvas_initial_def)
  moreover from teardown_idempotent
     [of "initializeBabylon (CameraThrows (Error ''lost context'')) (upload_initial [])"] c
  have "up_scene (disposeBabylon (initializeBabylon (CameraThrows (Error ''lost context'')) (upload_initial []))) = None"
    by blast
  ultimately show ?thesis using a b c by simp
qed

text \<open>
  C6. Every error of a load is caught where the load is started and ends as a message on
  the page with the loading indication cleared. In the file-upload component a failed
  read, an empty read, a rejected import and an error raised while the delivered meshes
  are framed all leave a non-empty \<open>errorLoading\<close> and \<open>isLoading\<close> false. In the canvas
  component every failure replaces the status line, which showed the loading text, by an
  error text. In the viewer-element component a rejected \<open>loadModel\<close> call, or an
  instance without that method, leaves a non-empty \<open>loadError\<close> and \<open>isLoading\<close> false.
  The handlers are total functions on the state: each operation that can raise lies inside
  a \<open>try\<close>, and what it raises is the argument of the \<open>catch\<close>.
\<close>

theorem load_errors_are_reported:
  "(read_failed out \<longrightarrow>
      shown (up_errorLoading (handleFileSelected_done file out u))
      \<and> \<not> up_isLoading (handleFileSelected_done file out u))
   \<and> (model_arrived file ms (attach_meshes ms u) = Inl e \<longrightarrow>
      shown (up_errorLoading (handleFileSelected_done file (ImportResolved ms) u))
      \<and> \<not> up_isLoading (handleFileSelected_done file (ImportResolved ms) u))
   \<and> (import_failed io \<longrightarrow>
      error_status (cv_loadingStatus (handleFileImport_done io c))
      \<and> cv_loadingStatus (handleFileImport_done io c) \<noteq> ''Loading '' @ file @ ''...'')
   \<and> shown (vw_loadError (loadModelIntoViewer_settled (Some e) v))
   \<and> \<not> vw_isLoading (loadModelIntoViewer_settled (Some e) v)
   \<and> (vw_isViewerReady v \<and> vw_viewerInstance v = Some i \<and> \<not> has_loadModel i \<longrightarrow>
      shown (vw_loadError (loadModelIntoViewer file v))
      \<and> \<not> vw_isLoading (loadModelIntoViewer file v)
      \<and> vw_pending (loadModelIntoViewer file v) = vw_pending v)"
proof (intro conjI impI)
  assume a: "read_failed out"
  show "shown (up_errorLoading (handleFileSelected_done file out u))"
    by (rule handleFileSelected_done_failed [OF a])
  show "\<not> up_isLoading (handleFileSelected_done file out u)"
    by (rule handleFileSelected_done_not_loading)
next
  assume a: "model_arrived file ms (attach_meshes ms u) = Inl e"
  show "shown (up_errorLoading (handleFileSelected_done file (ImportResolved ms) u))"
    by (simp add: handleFileSelected_done_def import_settled_raised [OF a] report_error_fields)
  show "\<not> up_isLoading (handleFileSelected_done file (ImportResolved ms) u)"
    by (rule handleFileSelected_done_not_loading)
next
  assume a: "import_failed io"
  show "error_status (cv_loadingStatus (handleFileImport_done io c))"
    by (rule handleFileImport_done_failed [OF a])
  then show "cv_loadingStatus (handleFileImport_done io c) \<noteq> ''Loading '' @ file @ ''...''"
    by (rule error_status_not_loading)
next
  show "shown (vw_loadError (loadModelIntoViewer_settled (Some e) v))"
    by (simp add: loadModelIntoViewer_settled_def loadModelIntoViewer_catch_reports)
  show "\<not> vw_isLoading (loadModelIntoViewer_settled (Some e) v)"
    by (simp add: loadModelIntoViewer_settled_def loadModelIntoViewer_catch_reports)
next
  assume a: "vw_isViewerReady v \<and> vw_viewerInstance v = Some i \<and> \<not> has_loadModel i"
  then have r: "vw_isViewerReady v" and i: "vw_viewerInstance v = Some i" and n: "\<not> has_loadModel i"
    by simp_all
  have eq: "loadModelIntoViewer file v =
       loadModelIntoViewer_catch (Error ''viewerInstance.value.loadModel is not a function'')
         (v \<lparr> vw_isLoading := True, vw_loadError := None \<rparr>)"
    by (rule loadModelIntoViewer_no_method [OF r i n])
  show "shown (vw_loadError (loadModelIntoViewer file v))"
    by (simp only: eq loadModelIntoViewer_catch_reports)
  show "\<not> vw_isLoading (loadModelIntoViewer file v)"
    by (simp only: eq loadModelIntoViewer_catch_reports) simp
  show "vw_pending (loadModelIntoViewer file v) = vw_pending v"
    by (simp add: eq loadModelIntoViewer_catch_pending)
qed

theorem load_errors_are_reported_witness:
  "read_failed ReaderFailed
   \<and> up_errorLoading (handleFileSelected_done ''a.glb'' ReaderFailed ready_upload)
        = Some ''Error: Failed to read the file''
   \<and> model_arrived ''a.glb'' [boxless_node] (attach_meshes [boxless_node] ready_upload) = Inl no_method
   \<and> up_errorLoading (handleFileSelected_done ''a.glb'' (ImportResolved [boxless_node]) ready_upload)
        = Some ''mesh.getBoundingInfo is not a function''
   \<and> import_failed (Failed ''bad header'')
   \<and> cv_loadingStatus (handleFileImport_done (Failed ''bad header'') (initScene canvas_initial))
        = ''Error: bad header''
   \<and> vw_isViewerReady bare_viewer
   \<and> vw_loadError (loadModelIntoViewer ''a.glb'' bare_viewer)
        = Some ''viewerInstance.value.loadModel is not a function''
   \<and> \<not> vw_isLoading (loadModelIntoViewer ''a.glb'' bare_viewer)"
proof -
  have a: "read_failed ReaderFailed" by (simp add: read_failed_def)
  have b: "model_arrived ''a.glb'' [boxless_node] (attach_meshes [boxless_node] ready_upload) = Inl no_method"
    by (simp add: model_arrived_def frame_camera_def frameMeshes_def boxless_node_def)
  have c: "import_failed (Failed ''bad header'')" by (simp add: import_failed_def)
  have d: "vw_isViewerReady bare_viewer"
    "vw_viewerInstance bare_viewer = Some \<lparr> has_loadModel = False, has_dispose = False \<rparr>"
    by (simp_all add: bare_viewer_def onViewerReady_def viewer_initial_def)
  have e: "up_errorLoading (handleFileSelected_done ''a.glb'' ReaderFailed ready_upload)
        = Some ''Error: Failed to read the file''"
    by (simp add: handleFileSelected_done_def)
  have f: "up_errorLoading (handleFileSelected_done ''a.glb'' (ImportResolved [boxless_node]) ready_upload)
        = Some ''mesh.getBoundingInfo is not a function''"
    by (simp add: handleFileSelected_done_def import_settled_raised [OF b] report_error_def
          no_method_def or_else_def)
  have g: "cv_loadingStatus (handleFileImport_done (Failed ''bad header'') (initScene canvas_initial))
        = ''Error: bad header''"
    by (simp add: handleFileImport_done_def)
  have h: "vw_loadError (loadModelIntoViewer ''a.glb'' bare_viewer)
        = Some ''viewerInstance.value.loadModel is not a function''"
    by (simp add: loadModelIntoViewer_no_method [OF d] loadModelIntoViewer_catch_def or_else_def)
  from load_errors_are_reported [of ReaderFailed "''a.glb''" ready_upload "[boxless_node]" no_method
      "Failed ''bad header''" "initScene canvas_initial" bare_viewer
      "\<lparr> has_loadModel = False, has_dispose = False \<rparr>"] a b c d
  have "\<not> vw_isLoading (loadModelIntoViewer ''a.glb'' bare_viewer)"
    by simp
  with a b c d e f g h show ?thesis by simp
qed

text \<open>
  C5. After a failed decode or import the has-model flag is false and a non-empty message
  is shown, and a later load that succeeds leaves no message. In the viewer-element
  component \<open>onModelError\<close> does so at any state, and one load from the file input to
  its end leaves the flag false with a message when the call is rejected, the flag true
  with no message when the viewer reports the model. In the file-upload component one load,
  from the file input or from the prop on mounting, ends with the flag false and a message
  whenever the read or the import fails, and with no message whenever the flag is set.
  The loads are taken one at a time: none is pending when the load starts.
\<close>

theorem failed_load_reports_and_success_clears:
  "shown (vw_loadError (onModelError ev v)) \<and> \<not> vw_isModelLoaded (onModelError ev v)
   \<and> (vw_pending v = [] \<and> vw_listening v
        \<and> viewer_run v [InputChange (Some fname), Settled vo] = Some v' \<longrightarrow>
          (rejection_of vo \<noteq> None \<longrightarrow> \<not> vw_isModelLoaded v' \<and> shown (vw_loadError v'))
          \<and> (vo = Changed True \<longrightarrow> vw_isModelLoaded v' \<and> vw_loadError v' = None))
   \<and> (up_pending u = []
        \<and> (upload_run u [FileSelected (Some fname), Finished out] = Some u'
            \<or> upload_run u [Mounted k, Finished out] = Some u') \<longrightarrow>
          (read_failed out \<longrightarrow> \<not> up_hasModel u' \<and> shown (up_errorLoading u'))
          \<and> (up_hasModel u' \<longrightarrow> up_errorLoading u' = None)
          \<and> (\<not> up_hasModel u' \<longrightarrow> shown (up_errorLoading u')))"
proof (intro conjI)
  show "shown (vw_loadError (onModelError ev v))" by (rule onModelError_reports)
  show "\<not> vw_isModelLoaded (onModelError ev v)" by (rule onModelError_reports)
  show "vw_pending v = [] \<and> vw_listening v
        \<and> viewer_run v [InputChange (Some fname), Settled vo] = Some v' \<longrightarrow>
          (rejection_of vo \<noteq> None \<longrightarrow> \<not> vw_isModelLoaded v' \<and> shown (vw_loadError v'))
          \<and> (vo = Changed True \<longrightarrow> vw_isModelLoaded v' \<and> vw_loadError v' = None)"
  proof (intro impI)
    assume a: "vw_pending v = [] \<and> vw_listening v
        \<and> viewer_run v [InputChange (Some fname), Settled vo] = Some v'"
    let ?w = "v \<lparr> vw_currentFile := Some fname, vw_isLoading := True, vw_loadError := None,
                     vw_pending := [] \<rparr>"
    from a have v': "v' = settle (LoadFile fname) vo ?w"
      by (intro viewer_load_cycle) simp_all
    from a have l: "vw_listening ?w" by simp
    show "(rejection_of vo \<noteq> None \<longrightarrow> \<not> vw_isModelLoaded v' \<and> shown (vw_loadError v'))
          \<and> (vo = Changed True \<longrightarrow> vw_isModelLoaded v' \<and> vw_loadError v' = None)"
      using settle_changed [OF l, of fname] settle_rejected [of vo _ fname ?w]
      by (auto simp: v')
  qed
  show "up_pending u = []
        \<and> (upload_run u [FileSelected (Some fname), Finished out] = Some u'
            \<or> upload_run u [Mounted k, Finished out] = Some u') \<longrightarrow>
          (read_failed out \<longrightarrow> \<not> up_hasModel u' \<and> shown (up_errorLoading u'))
          \<and> (up_hasModel u' \<longrightarrow> up_errorLoading u' = None)
          \<and> (\<not> up_hasModel u' \<longrightarrow> shown (up_errorLoading u'))"
  proof (intro impI)
    assume a: "up_pending u = []
        \<and> (upload_run u [FileSelected (Some fname), Finished out] = Some u'
            \<or> upload_run u [Mounted k, Finished out] = Some u')"
    then have p: "up_pending u = []" by simp
    from a consider
        (by_file) "upload_run u [FileSelected (Some fname), Finished out] = Some u'"
      | (by_url) "upload_run u [Mounted k, Finished out] = Some u'"
      by blast
    then show "(read_failed out \<longrightarrow> \<not> up_hasModel u' \<and> shown (up_errorLoading u'))
          \<and> (up_hasModel u' \<longrightarrow> up_errorLoading u' = None)
          \<and> (\<not> up_hasModel u' \<longrightarrow> shown (up_errorLoading u'))"
    proof cases
      case by_file
      let ?w = "u \<lparr> up_isLoading := True, up_errorLoading := None, up_pending := [] \<rparr>"
      from file_load_cycle [OF p by_file]
      have h: "\<not> up_hasModel ?w" and e: "up_errorLoading ?w = None"
        and u': "u' = handleFileSelected_done fname out ?w"
        by simp_all
      from handleFileSelected_done_outcome [OF h e, of fname out]
        handleFileSelected_done_failed [of out fname ?w]
        handleFileSelected_done_failed_hasModel [of out fname ?w] h
      show ?thesis
        unfolding u' by (auto simp: shown_def)
    next
      case by_url
      from url_load_cycle [OF p by_url] obtain w r where
        h: "\<not> up_hasModel w" and e: "up_errorLoading w = None"
        and u': "u' = import_settled (up_modelUrl u) r w"
        and f: "read_failed out \<longrightarrow> (\<exists>e. r = Inl e)"
        by blast
      from import_settled_outcome [OF h e, of "up_modelUrl u" r]
        import_settled_rejected_outcome [OF h, of "up_modelUrl u"] f
      show ?thesis
        unfolding u' by (auto simp: shown_def)
    qed
  qed
qed

theorem failed_load_reports_and_success_clears_witness:
  "vw_pending ready_viewer = [] \<and> vw_listening ready_viewer
   \<and> (\<exists>v1 v2. viewer_run ready_viewer [InputChange (Some ''a.glb''), Settled (Rejected (Error ''bad''))] = Some v1
        \<and> \<not> vw_isModelLoaded v1 \<and> shown (vw_loadError v1)
        \<and> viewer_run v1 [InputChange (Some ''b.glb''), Settled (Changed True)] = Some v2
        \<and> vw_isModelLoaded v2 \<and> vw_loadError v2 = None)
   \<and> up_pending ready_upload = []
   \<and> (\<exists>u1 u2. upload_run ready_upload [FileSelected (Some ''a.glb''), Finished (ImportRejected (Error ''bad''))] = Some u1
        \<and> \<not> up_hasModel u1 \<and> shown (up_errorLoading u1)
        \<and> upload_run u1 [FileSelected (Some ''b.glb''), Finished (ImportResolved example_nodes)] = Some u2
        \<and> (up_hasModel u2 \<and> up_errorLoading u2 = None))"
proof -
  obtain v2 where v2: "viewer_run rejected_viewer [InputChange (Some ''b.glb''), Settled (Changed True)] = Some v2"
    using reloaded_viewer_run by blast
  obtain u2 where u2: "upload_run rejected_upload [FileSelected (Some ''b.glb''), Finished (ImportResolved example_nodes)] = Some u2"
    using reloaded_upload_run by blast
  have pv: "vw_pending rejected_viewer = []" "vw_listening rejected_viewer"
    by (simp_all add: rejected_viewer_def ready_viewer_fields)
  have pu: "up_pending rejected_upload = []"
    by (simp add: rejected_upload_def ready_upload_fields)
  have rej: "rejection_of (Rejected (Error ''bad'')) \<noteq> None" by (simp add: rejection_of_def)
  have rf: "read_failed (ImportRejected (Error ''bad''))" by (simp add: read_failed_def)
  from failed_load_reports_and_success_clears
     [where v = ready_viewer and fname = "''a.glb''" and vo = "Rejected (Error ''bad'')"
        and v' = rejected_viewer and u = ready_upload
        and out = "ImportRejected (Error ''bad'')" and u' = rejected_upload]
     rejected_viewer_run rejected_upload_run ready_viewer_fields ready_upload_fields rej rf
  have a: "\<not> vw_isModelLoaded rejected_viewer" "shown (vw_loadError rejected_viewer)"
     "\<not> up_hasModel rejected_upload" "shown (up_errorLoading rejected_upload)"
    by simp_all
  have hm: "up_hasModel u2"
    using u2
    by (simp add: upload_step_def add_model_shown_def handleFileSelected_def ready_upload_fields
        upload_finish_def rejected_upload_def handleFileSelected_done_def import_settled_def
        attach_meshes_def model_arrived_def frame_camera_def example_frameMeshes Let_def)
       auto
  from failed_load_reports_and_success_clears
     [where v = rejected_viewer and fname = "''b.glb''" and vo = "Changed True"
        and v' = v2 and u = rejected_upload
        and out = "ImportResolved example_nodes" and u' = u2]
     v2 u2 pv pu hm
  have b: "vw_isModelLoaded v2" "vw_loadError v2 = None" "up_errorLoading u2 = None"
    by simp_all
  show ?thesis
    using a b hm v2 u2 rejected_viewer_run rejected_upload_run ready_viewer_fields ready_upload_fields
    by auto
qed

text \<open>
  C4. While a load is in flight a second request is impossible. In the viewer-element
  component this holds in every run from the initial state: at most one call of
  \<open>loadModel\<close> is pending, and while one is pending \<open>isLoading\<close> is set, the file
  input and the Clear button are disabled and neither event can happen. The canvas
  component has no such gate: a change event is possible in every state, and with a scene
  each one starts a further read. There two imports can be in flight at once, and both
  sets of meshes end up attached, as the run after the witness shows.
\<close>

theorem viewer_one_call_in_flight:
  "(viewer_run viewer_initial evs = Some s \<longrightarrow>
      length (vw_pending s) \<le> 1
      \<and> (vw_pending s \<noteq> [] \<longrightarrow>
            vw_isLoading s \<and> file_input_disabled s \<and> clear_button_disabled s
            \<and> viewer_step s (InputChange files) = None \<and> viewer_step s ClearClick = None))
   \<and> canvas_step c (Change files) = Some (handleFileImport files c)
   \<and> (cv_scene c \<noteq> None \<longrightarrow>
        cv_pending (handleFileImport (Some fname) c) = cv_pending c + 1)"
proof (intro conjI impI)
  assume run: "viewer_run viewer_initial evs = Some s"
  from viewer_run_inv [OF viewer_inv_initial run] have inv: "viewer_inv s" .
  then show "length (vw_pending s) \<le> 1" by (auto simp: viewer_inv_def)
  assume ne: "vw_pending s \<noteq> []"
  with inv show "vw_isLoading s" by (auto simp: viewer_inv_def)
  then show "file_input_disabled s" by (simp add: file_input_disabled_def)
  from \<open>vw_isLoading s\<close> show "clear_button_disabled s" by (simp add: clear_button_disabled_def)
  from viewer_inv_gate [OF inv ne] show "viewer_step s (InputChange files) = None"
    and "viewer_step s ClearClick = None" by simp_all
next
  show "canvas_step c (Change files) = Some (handleFileImport files c)"
    by (simp add: canvas_step_def)
next
  assume "cv_scene c \<noteq> None"
  from handleFileImport_request [OF this, of fname]
  show "cv_pending (handleFileImport (Some fname) c) = cv_pending c + 1" by simp
qed

theorem viewer_one_call_in_flight_witness:
  "viewer_run viewer_initial
     [ViewerReady (Some \<lparr> has_loadModel = True, has_dispose = True \<rparr>), InputChange (Some ''a.glb'')]
     = Some loading_viewer
   \<and> vw_pending loading_viewer = [LoadFile ''a.glb'']
   \<and> vw_isLoading loading_viewer
   \<and> viewer_step loading_viewer (InputChange (Some ''b.glb'')) = None
   \<and> viewer_step loading_viewer ClearClick = None
   \<and> cv_scene (initScene canvas_initial) \<noteq> None
   \<and> cv_pending (handleFileImport (Some ''b.glb'') (handleFileImport (Some ''a.glb'') (initScene canvas_initial))) = 2"
proof -
  have p: "vw_pending loading_viewer = [LoadFile ''a.glb'']"
    by (simp add: loading_viewer_def)
  have sc: "cv_scene (initScene canvas_initial) \<noteq> None" by (rule initScene_fields)
  have sc1: "cv_scene (handleFileImport (Some ''a.glb'') (initScene canvas_initial)) \<noteq> None"
    using handleFileImport_request [OF sc, of "''a.glb''"] by simp
  from viewer_one_call_in_flight
     [of "[ViewerReady (Some \<lparr> has_loadModel = True, has_dispose = True \<rparr>), InputChange (Some ''a.glb'')]"
         loading_viewer "Some ''b.glb''" "initScene canvas_initial" "''a.glb''"]
    loading_viewer_run p sc
  have a: "vw_isLoading loading_viewer"
    "viewer_step loading_viewer (InputChange (Some ''b.glb'')) = None"
    "viewer_step loading_viewer ClearClick = None"
    "cv_pending (handleFileImport (Some ''a.glb'') (initScene canvas_initial)) = 1"
    by (simp_all add: initScene_fields)
  from viewer_one_call_in_flight
     [of "[]" viewer_initial "None"
         "handleFileImport (Some ''a.glb'') (initScene canvas_initial)" "''b.glb''"] sc1 a(4)
  have b: "cv_pending (handleFileImport (Some ''b.glb'')
              (handleFileImport (Some ''a.glb'') (initScene canvas_initial))) = 2"
    by simp
  from a b p sc loading_viewer_run show ?thesis by simp
qed

theorem canvas_two_imports_in_flight:
  "(\<exists>s. canvas_run (initScene canvas_initial) [Change (Some ''a.glb''), Change (Some ''b.glb'')] = Some s
        \<and> cv_pending s = 2)
   \<and> (\<exists>s. canvas_run (initScene canvas_initial)
              [Change (Some ''a.glb''), Change (Some ''b.glb''),
               Done (Imported [example_nodes ! 0]), Done (Imported [example_nodes ! 1])] = Some s
        \<and> attached s = [example_nodes ! 0, example_nodes ! 1])"
  using canvas_overlap(1) [OF initScene_fields, of "''a.glb''" "''b.glb''"]
    canvas_overlap(2) [OF initScene_fields, of "''a.glb''" "''b.glb''" "[example_nodes ! 0]"
      "[example_nodes ! 1]"]
  by auto

text \<open>
  C2. At most one geometry set is attached to the scene, when the loads do not overlap. In
  the canvas component, in every run in which a file is picked only while no read is under
  way, the meshes attached to the scene are exactly those of \<open>loadedModel\<close>; a request
  disposes every node of the previous set before anything new is attached, and once the
  import has ended exactly the new nodes are attached. In the file-upload component, in
  every run in which the component is re-initialised only while nothing is pending, no
  constructor fails between scene and camera and the imported meshes have bounding boxes,
  meshes are attached only while \<open>hasModel\<close> is set, and then no file can be selected;
  a load from the file input starts from an empty scene and a change of the address
  rebuilds the scene, so after either exactly the new nodes are attached. With overlapping
  requests the canvas component keeps a stale set attached, as the run after the witness
  shows.
\<close>

theorem one_geometry_set_when_loads_do_not_overlap:
  "(canvas_inv c0 \<and> one_at_a_time c0 evs \<and> canvas_run c0 evs = Some c1 \<longrightarrow>
      attached c1 = cv_loadedModel c1)
   \<and> canvas_inv (initScene canvas_initial)
   \<and> (attached c = cv_loadedModel c \<and> cv_pending c = 0 \<and> cv_scene c \<noteq> None \<longrightarrow>
        attached (handleFileImport (Some fname) c) = []
        \<and> (\<exists>c'. canvas_run c [Change (Some fname), Done (Imported ms)] = Some c'
               \<and> attached c' = ms \<and> cv_loadedModel c' = ms))
   \<and> (upload_inv u0 \<and> orderly u0 uevs \<and> upload_run u0 uevs = Some u1 \<longrightarrow>
        (up_attached u1 \<noteq> [] \<longrightarrow>
           up_hasModel u1 \<and> upload_step u1 (FileSelected files) = None))
   \<and> upload_inv (upload_initial url)
   \<and> (upload_inv u \<and> boxed ms
        \<and> upload_run u [FileSelected (Some fname), Finished (ImportResolved ms)] = Some u' \<longrightarrow>
          up_attached u' = ms)
   \<and> (up_pending u = [] \<and> boxed ms
        \<and> upload_run u [UrlChanged url k, Finished (ImportResolved ms)] = Some u' \<longrightarrow>
          up_attached u' = ms)"
proof (intro conjI impI)
  assume "canvas_inv c0 \<and> one_at_a_time c0 evs \<and> canvas_run c0 evs = Some c1"
  then have "canvas_inv c1" by (auto intro: canvas_run_inv)
  then show "attached c1 = cv_loadedModel c1" by (simp add: canvas_inv_def)
next
  show "canvas_inv (initScene canvas_initial)" by (rule canvas_inv_initScene)
next
  assume a: "attached c = cv_loadedModel c \<and> cv_pending c = 0 \<and> cv_scene c \<noteq> None"
  then have a1: "attached c = cv_loadedModel c" and a2: "cv_pending c = 0" and a3: "cv_scene c \<noteq> None"
    by simp_all
  show "attached (handleFileImport (Some fname) c) = []"
    by (rule canvas_replace(1) [OF a1 a2 a3])
  from canvas_replace(2) [OF a1 a2 a3, of fname ms]
  show "\<exists>c'. canvas_run c [Change (Some fname), Done (Imported ms)] = Some c'
               \<and> attached c' = ms \<and> cv_loadedModel c' = ms"
    by blast
next
  assume a: "upload_inv u0 \<and> orderly u0 uevs \<and> upload_run u0 uevs = Some u1"
    and b: "up_attached u1 \<noteq> []"
  from a have inv: "upload_inv u1" by (auto intro: upload_run_inv)
  from upload_inv_gate [OF inv b] show "up_hasModel u1"
    and "upload_step u1 (FileSelected files) = None" by simp_all
next
  show "upload_inv (upload_initial url)" by (rule upload_inv_initial)
next
  assume "upload_inv u \<and> boxed ms
        \<and> upload_run u [FileSelected (Some fname), Finished (ImportResolved ms)] = Some u'"
  then show "up_attached u' = ms" using file_replace [of u ms fname u'] by simp
next
  assume "up_pending u = [] \<and> boxed ms
        \<and> upload_run u [UrlChanged url k, Finished (ImportResolved ms)] = Some u'"
  then show "up_attached u' = ms" using url_replace [of u ms url k u'] by simp
qed

theorem one_geometry_set_when_loads_do_not_overlap_witness:
  "one_at_a_time (initScene canvas_initial) two_loads
   \<and> (\<exists>c. canvas_run (initScene canvas_initial) two_loads = Some c
          \<and> attached c = [example_nodes ! 1])
   \<and> upload_inv ready_upload \<and> boxed example_nodes
   \<and> (\<exists>u'. upload_run ready_upload
               [FileSelected (Some ''a.glb''), Finished (ImportResolved example_nodes)] = Some u'
          \<and> up_attached u' = example_nodes
          \<and> upload_step u' (FileSelected (Some ''b.glb'')) = None)"
proof -
  obtain c where c: "canvas_run (initScene canvas_initial) two_loads = Some c"
    and l: "cv_loadedModel c = [example_nodes ! 1]"
    using two_loads_run by blast
  obtain u' where u': "upload_run ready_upload
               [FileSelected (Some ''a.glb''), Finished (ImportResolved example_nodes)] = Some u'"
    using ready_upload_file_run by blast
  have o: "orderly ready_upload [FileSelected (Some ''a.glb''), Finished (ImportResolved example_nodes)]"
    using u' example_boxed_all
    by (auto simp: calm_def split: option.splits)
  note inst = one_geometry_set_when_loads_do_not_overlap
     [where ?c0.0 = "initScene canvas_initial" and evs = two_loads and ?c1.0 = c
        and ?u0.0 = ready_upload
        and uevs = "[FileSelected (Some ''a.glb''), Finished (ImportResolved example_nodes)]"
        and ?u1.0 = u' and files = "Some ''b.glb''"
        and u = ready_upload and ms = example_nodes and fname = "''a.glb''" and u' = u']
  from inst two_loads_one_at_a_time c l ready_upload_inv example_boxed_all u' o
  have a: "attached c = [example_nodes ! 1]" and b: "up_attached u' = example_nodes"
    by simp_all
  from inst ready_upload_inv o u' b
  have g: "upload_step u' (FileSelected (Some ''b.glb'')) = None"
    by (simp add: example_nodes_def)
  from a b g c u' two_loads_one_at_a_time ready_upload_inv example_boxed_all
  show ?thesis by simp
qed

theorem canvas_stale_set_stays_attached:
  "\<exists>s. canvas_run (initScene canvas_initial)
          [Change (Some ''a.glb''), Change (Some ''b.glb''),
           Done (Imported [example_nodes ! 0]), Done (Imported [example_nodes ! 1]),
           Change (Some ''c.glb''), Done (Imported [sunken_node])] = Some s
      \<and> cv_pending s = 0
      \<and> cv_loadedModel s = [sunken_node]
      \<and> attached s = [example_nodes ! 0, sunken_node]"
proof -
  let ?c0 = "initScene canvas_initial"
  from canvas_overlap(2) [OF initScene_fields, of "''a.glb''" "''b.glb''" "[example_nodes ! 0]"
      "[example_nodes ! 1]"]
  obtain s4 where
    run4: "canvas_run ?c0 [Change (Some ''a.glb''), Change (Some ''b.glb''),
             Done (Imported [example_nodes ! 0]), Done (Imported [example_nodes ! 1])] = Some s4"
    and a4: "attached s4 = [example_nodes ! 0, example_nodes ! 1]"
    and l4: "cv_loadedModel s4 = [example_nodes ! 1]"
    and p4: "cv_pending s4 = 0" and sc4: "cv_scene s4 \<noteq> None"
    by auto
  let ?s5 = "handleFileImport (Some ''c.glb'') s4"
  from handleFileImport_request [OF sc4, of "''c.glb''"] a4 l4 p4 example_nodes_second_disposed
  have r5: "attached ?s5 = [example_nodes ! 0]" "cv_pending ?s5 = 1" "cv_scene ?s5 \<noteq> None"
    by simp_all
  let ?s6 = "handleFileImport_done (Imported [sunken_node]) (?s5 \<lparr> cv_pending := cv_pending ?s5 - 1 \<rparr>)"
  from handleFileImport_done_attached [OF r5(3), of "[sunken_node]" "cv_pending ?s5 - 1"] r5
  have r6: "attached ?s6 = [example_nodes ! 0, sunken_node]" "cv_loadedModel ?s6 = [sunken_node]"
    "cv_pending ?s6 = 0"
    by simp_all
  have tail: "canvas_run s4 [Change (Some ''c.glb''), Done (Imported [sunken_node])] = Some ?s6"
    using r5 by (simp add: canvas_step_def)
  have "canvas_run ?c0
          ([Change (Some ''a.glb''), Change (Some ''b.glb''),
            Done (Imported [example_nodes ! 0]), Done (Imported [example_nodes ! 1])]
           @ [Change (Some ''c.glb''), Done (Imported [sunken_node])]) = Some ?s6"
    by (simp only: canvas_run_append run4 tail option.case)
  then have "canvas_run ?c0
          [Change (Some ''a.glb''), Change (Some ''b.glb''),
           Done (Imported [example_nodes ! 0]), Done (Imported [example_nodes ! 1]),
           Change (Some ''c.glb''), Done (Imported [sunken_node])] = Some ?s6"
    by simp
  with r6 show ?thesis by blast
qed

end
